theory Spec2Isabelle
  imports Main "HOL-Library.Word"
begin

unbundle bit_operations_syntax

section \<open>ASM92: the two-pass assembler of asm92.cpp\<close>

text \<open>
  The embedding follows \<^verbatim>\<open>parse\<close> of asm92.cpp line by line. Conventions:
  \<^item> \<^verbatim>\<open>unsigned char\<close> is \<open>8 word\<close>, \<^verbatim>\<open>uint32_t\<close> is \<open>32 word\<close>;
  \<^item> \<^verbatim>\<open>int caddr\<close> and \<^verbatim>\<open>int linenum\<close> are \<open>int\<close>: they only count up, from 0 and 1, by
    at most three per source line plus 255 per directive, so a source file of fewer than
    eight million lines stays below the 32-bit limit;
  \<^item> \<^verbatim>\<open>char\<close> is the signed 8-bit type of the documented build (g++ on x86); it matters
    only for bytes above 0x7F;
  \<^item> the tables \<^verbatim>\<open>lblmap\<close>, \<^verbatim>\<open>directives\<close> and \<^verbatim>\<open>imap\<close> are maps; \<^verbatim>\<open>imap\<close> is a
    parameter, since \<^verbatim>\<open>load\<close> may extend it from mapping.conf before the passes run;
  \<^item> every \<^verbatim>\<open>goto err\<close> is an \<open>Inl\<close> result carrying what the diagnostic prints.
\<close>

type_synonym u8 = "8 word"
type_synonym u32 = "32 word"

subsection \<open>Characters\<close>

definition schar :: "char \<Rightarrow> int" where
  "schar c = (if (of_char c :: int) < 128 then of_char c else of_char c - 256)"

text \<open>\<^verbatim>\<open>toupper\<close> of the C locale: only a-z change.\<close>

definition toupper :: "char \<Rightarrow> char" where
  "toupper c = (if 97 \<le> schar c \<and> schar c \<le> 122 then char_of (schar c - 32) else c)"

text \<open>The test \<^verbatim>\<open>(c >= 48 && c <= 57) || (c >= 65 && c <= 70)\<close>.\<close>

definition is_hex :: "char \<Rightarrow> bool" where
  "is_hex c = ((48 \<le> schar c \<and> schar c \<le> 57) \<or> (65 \<le> schar c \<and> schar c \<le> 70))"

text \<open>\<^verbatim>\<open>val = c - 48; if (c > 64) val = c - 55;\<close> followed by \<^verbatim>\<open>x <<= 4; x |= (val & 0x0F);\<close>.\<close>

definition hexval :: "char \<Rightarrow> u8" where
  "hexval c = (if schar c > 64 then word_of_int (schar c - 55) else word_of_int (schar c - 48))"

definition shift_in :: "u8 \<Rightarrow> char \<Rightarrow> u8" where
  "shift_in x c = push_bit 4 x OR (hexval c AND 0x0F)"

subsection \<open>Helpers that are not in asm92.cpp\<close>

text \<open>
  Modelled from the spec: \<^verbatim>\<open>trim\<close> of strim.h, which is not among the sources. The spec
  says that leading and trailing whitespace is trimmed; the whitespace characters are
  taken to be tab, line feed, vertical tab, form feed, carriage return and space.
\<close>

definition is_space :: "char \<Rightarrow> bool" where
  "is_space c = (c = CHR 0x09 \<or> c = CHR 0x0A \<or> c = CHR 0x0B \<or> c = CHR 0x0C \<or> c = CHR 0x0D \<or> c = CHR '' '')"

definition trim :: "string \<Rightarrow> string" where
  "trim s = rev (dropWhile is_space (rev (dropWhile is_space s)))"

text \<open>\<^verbatim>\<open>std::string::substr(pos, n)\<close>; every call of \<^verbatim>\<open>parse\<close> has \<open>pos\<close> in range.\<close>

definition substr :: "string \<Rightarrow> nat \<Rightarrow> nat \<Rightarrow> string" where
  "substr s pos n = take n (drop pos s)"

text \<open>
  \<^verbatim>\<open>std::regex_search\<close> with the patterns \<^verbatim>\<open>^.*:\<close> and \<^verbatim>\<open>^.*=\<close>: the match starts at the
  first character, the dot does not cross a line terminator, and the star is greedy, so
  \<^verbatim>\<open>match[0]\<close> runs up to the last delimiter of the first physical line.
\<close>

definition is_eol :: "char \<Rightarrow> bool" where
  "is_eol c = (c = CHR 0x0A \<or> c = CHR 0x0D)"

definition upto_last :: "char \<Rightarrow> string \<Rightarrow> string" where
  "upto_last d s = rev (dropWhile (\<lambda>c. c \<noteq> d) (rev s))"

definition regex_match :: "char \<Rightarrow> string \<Rightarrow> string option" where
  "regex_match d line =
     (let seg = takeWhile (\<lambda>c. \<not> is_eol c) line
      in if d \<in> set seg then Some (upto_last d seg) else None)"

subsection \<open>Diagnostics\<close>

text \<open>Each constructor is one \<^verbatim>\<open>std::cerr\<close> site of \<^verbatim>\<open>parse\<close>, with the values it prints.\<close>

datatype error =
    InvalidHexValue string int
  | InvalidDirective string int
  | InvalidAssignment string int
  | NotLabelNorImmediate string int
  | LeadingComma string int
  | InvalidMnemonic string int
  | InvalidInstruction string int u32

text \<open>Decimal and lower-case hexadecimal numerals, as the stream prints them.\<close>

function dec_digits :: "int \<Rightarrow> string" where
  "dec_digits n = (if n < 10 then [char_of (48 + n)] else dec_digits (n div 10) @ [char_of (48 + n mod 10)])"
  by pat_completeness auto
termination
  by (relation "measure nat") auto

definition show_int :: "int \<Rightarrow> string" where
  "show_int i = (if i < 0 then CHR ''-'' # dec_digits (- i) else dec_digits i)"

definition hex_char :: "int \<Rightarrow> char" where
  "hex_char d = (if d < 10 then char_of (48 + d) else char_of (87 + d))"

function hex_digits :: "int \<Rightarrow> string" where
  "hex_digits n = (if n < 16 then [hex_char (n mod 16)] else hex_digits (n div 16) @ [hex_char (n mod 16)])"
  by pat_completeness auto
termination
  by (relation "measure nat") auto

definition quoted_at :: "string \<Rightarrow> string \<Rightarrow> int \<Rightarrow> string" where
  "quoted_at what txt n = ''Error: '' @ what @ '': '' @ [CHR 0x22] @ txt @ [CHR 0x22] @ '' [line '' @ show_int n @ '']''"

fun diagnostic :: "error \<Rightarrow> string" where
  "diagnostic (InvalidHexValue v n) = quoted_at ''Invalid hex value'' v n @ [CHR 0x0A]"
| "diagnostic (InvalidDirective l n) = quoted_at ''Invalid assembler directive'' l n @ [CHR 0x0A]"
| "diagnostic (InvalidAssignment l n) = quoted_at ''Invalid assembler directive assignment'' l n @ [CHR 0x0A]"
| "diagnostic (NotLabelNorImmediate l n) =
     quoted_at ''Operand is neither a valid label or immediate address'' l n @ [CHR 0x0A]"
| "diagnostic (LeadingComma l n) = quoted_at ''Leading comma in instruction'' l n @ [CHR 0x0A]"
| "diagnostic (InvalidMnemonic m n) = quoted_at ''Invalid Mnemonic'' m n @ [CHR 0x0A]"
| "diagnostic (InvalidInstruction l n k) =
     quoted_at ''Invalid instruction'' l n @ ''. Instruction code cannot be mapped.'' @ [CHR 0x0A]
       @ ''ICode = 0x'' @ hex_digits (uint k) @ [CHR 0x0A]"

subsection \<open>State\<close>

text \<open>
  The globals \<^verbatim>\<open>directives\<close> and \<^verbatim>\<open>adjustBase\<close>, the function-static \<^verbatim>\<open>lblmap\<close>, the locals
  of \<^verbatim>\<open>parse\<close> that live across lines (\<^verbatim>\<open>caddr\<close>, \<^verbatim>\<open>linenum\<close>, \<^verbatim>\<open>mpc\<close>), and what pass 2
  has written so far: one (address, byte) pair per \<^verbatim>\<open>out.write\<close>, the address being the
  one printed beside the byte in the console listing.
\<close>

record asm_state =
  lblmap :: "string \<rightharpoonup> u8"
  directives :: "string \<rightharpoonup> u8"
  adjustBase :: bool
  caddr :: int
  linenum :: int
  mpc :: u8
  emitted :: "(int \<times> u8) list"

text \<open>\<^verbatim>\<open>directives["base_addr"]\<close>: \<^verbatim>\<open>operator[]\<close> yields 0 for a missing key.\<close>

definition dir_get :: "(string \<rightharpoonup> u8) \<Rightarrow> string \<Rightarrow> u8" where
  "dir_get d k = (case d k of None \<Rightarrow> 0 | Some v \<Rightarrow> v)"

definition jmpcodes :: "string set" where
  "jmpcodes = {''JMP'', ''JSR'', ''BR'', ''BRZ'', ''BRN''}"

definition ALU_CARRY_ADJUST :: int where
  "ALU_CARRY_ADJUST = 2"

text \<open>The built-in table of the source.\<close>

definition imap_default :: "u32 \<rightharpoonup> u8" where
  "imap_default =
     [0x484C5400 \<mapsto> 0x03, 0x4D4F5621 \<mapsto> 0x04, 0x41444421 \<mapsto> 0x0B,
      0x4A4D5010 \<mapsto> 0x50, 0x42520010 \<mapsto> 0x80]"

subsection \<open>Directive lines (pass 1 only)\<close>

text \<open>The loop over the value text; \<open>None\<close> is the jump to \<^verbatim>\<open>err\<close>.\<close>

fun dir_value :: "u8 \<Rightarrow> string \<Rightarrow> u8 option" where
  "dir_value m [] = Some m"
| "dir_value m (ch # cs) =
     (let c = toupper ch in
      if c = CHR '' '' then dir_value m cs
      else if c = CHR ''#'' then Some m
      else if is_hex c then dir_value (shift_in m c) cs
      else None)"

definition directive_line :: "asm_state \<Rightarrow> string \<Rightarrow> error + asm_state" where
  "directive_line s line =
     (case regex_match CHR ''='' line of
        None \<Rightarrow> Inl (InvalidAssignment line (linenum s))
      | Some m \<Rightarrow>
          (let lbl0 = substr m 1 (length m - 2);
               mn0 = substr line (length lbl0 + 2) (length line - length lbl0);
               lbl = trim lbl0;
               mnemonic = trim mn0
           in if directives s lbl \<noteq> None then
                (case dir_value (mpc s) mnemonic of
                   None \<Rightarrow> Inl (InvalidHexValue mnemonic (linenum s))
                 | Some v \<Rightarrow>
                     (let s1 = s\<lparr>directives := (directives s)(lbl \<mapsto> v), mpc := v\<rparr>
                      in if lbl = ''base_addr''
                         then Inr (s1\<lparr>caddr := caddr s1 + uint v, adjustBase := True\<rparr>)
                         else Inr s1))
              else Inl (InvalidDirective line (linenum s))))"

subsection \<open>Instruction lines\<close>

text \<open>
  The mnemonic loop. Its middle branch tests for a hash sign where the character is known
  to be a space, so it never fires; it is kept as written. The result is the mnemonic,
  the text after the index \<open>i\<close>, and the \<^verbatim>\<open>comment\<close> flag.
\<close>

fun read_mnemonic :: "string \<Rightarrow> string \<times> string \<times> bool" where
  "read_mnemonic [] = ([], [], False)"
| "read_mnemonic (c # cs) =
     (if c \<noteq> CHR '' '' then (case read_mnemonic cs of (m, r, cm) \<Rightarrow> (toupper c # m, r, cm))
      else if c = CHR ''#'' then ([], cs, True)
      else ([], cs, False))"

text \<open>
  The jump/branch loop of pass 2: the rest of the line up to a hash sign is both appended
  to \<^verbatim>\<open>lbl\<close> and shifted into \<^verbatim>\<open>ops[0]\<close>, whatever the characters are.
\<close>

fun jmp_scan :: "string \<Rightarrow> string \<Rightarrow> u8 \<Rightarrow> string \<times> u8" where
  "jmp_scan [] lbl op0 = (lbl, op0)"
| "jmp_scan (c # cs) lbl op0 =
     (if c = CHR ''#'' then (lbl, op0)
      else jmp_scan cs (lbl @ [c]) (shift_in op0 (toupper c)))"

text \<open>
  The label-or-immediate choice. \<open>None\<close> is the jump to \<^verbatim>\<open>err\<close>; otherwise the final
  \<^verbatim>\<open>ops[0]\<close>.
\<close>

definition resolve_jmp :: "asm_state \<Rightarrow> string \<Rightarrow> string \<Rightarrow> u8 option" where
  "resolve_jmp s mnemonic rest =
     (case jmp_scan rest [] 0 of (lbl0, scanned) \<Rightarrow>
        (let lbl = trim lbl0;
             op0 = scanned + dir_get (directives s) ''base_addr''
         in case lblmap s lbl of
              Some a \<Rightarrow>
                (if hd mnemonic = CHR ''B'' then
                   (if uint a < caddr s
                    then Some (word_of_int (sint a - (caddr s + ALU_CARRY_ADJUST)))
                    else Some (word_of_int (sint a - (caddr s + 1))))
                 else Some a)
            | None \<Rightarrow> if length lbl > 2 then None else Some op0))"

text \<open>
  The generic operand loop. The two-element arrays \<^verbatim>\<open>ops\<close> and \<^verbatim>\<open>optype\<close> are lists of
  length 2; \<^verbatim>\<open>numops\<close> is 0 or 1 inside the loop. \<open>None\<close> is the jump to \<^verbatim>\<open>err\<close>.
\<close>

fun read_operands :: "string \<Rightarrow> nat \<Rightarrow> u8 list \<Rightarrow> u8 list \<Rightarrow> (nat \<times> u8 list \<times> u8 list) option" where
  "read_operands [] numops ops optype = Some (numops, ops, optype)"
| "read_operands (ch # cs) numops ops optype =
     (let c = toupper ch in
      if c = CHR '' '' then read_operands cs numops ops optype
      else if c = CHR ''#'' then Some (numops, ops, optype)
      else if c = CHR ''$'' then read_operands cs numops ops (optype[numops := 2])
      else if c = CHR '','' then
        (if numops = 0 then read_operands cs (numops + 1) ops optype else None)
      else if is_hex c then
        read_operands cs numops (ops[numops := shift_in (ops ! numops) c])
          (if optype ! numops = 0 then optype[numops := 1] else optype)
      else read_operands cs numops ops optype)"

text \<open>
  The instruction code. \<^verbatim>\<open>buffer = mnemonic[i]\<close> converts a (signed) char to 32 bits;
  a fourth mnemonic character is the jump to \<^verbatim>\<open>err\<close>.
\<close>

fun pack_mnemonic :: "string \<Rightarrow> nat \<Rightarrow> u32 \<Rightarrow> u32 option" where
  "pack_mnemonic [] i icode = Some icode"
| "pack_mnemonic (c # cs) i icode =
     (if i > 2 then None
      else pack_mnemonic cs (i + 1) (icode OR push_bit (8 * (3 - i)) (word_of_int (schar c))))"

definition make_icode :: "string \<Rightarrow> u8 \<Rightarrow> u8 \<Rightarrow> u32 option" where
  "make_icode mnemonic t0 t1 =
     (case pack_mnemonic mnemonic 0 0 of
        None \<Rightarrow> None
      | Some icode \<Rightarrow> Some (icode OR (push_bit 4 (ucast t0) OR (ucast t1 AND 0x0F))))"

text \<open>Writing the opcode byte and the operand bytes; in pass 1 only the address moves.\<close>

fun emit_bytes :: "bool \<Rightarrow> u8 list \<Rightarrow> asm_state \<Rightarrow> asm_state" where
  "emit_bytes write [] s = s"
| "emit_bytes write (b # bs) s =
     emit_bytes write bs
       (s\<lparr>emitted := (if write then emitted s @ [(caddr s, b)] else emitted s), caddr := caddr s + 1\<rparr>)"

definition instruction_line :: "(u32 \<rightharpoonup> u8) \<Rightarrow> bool \<Rightarrow> asm_state \<Rightarrow> string \<Rightarrow> error + asm_state" where
  "instruction_line imap write s line =
     (case read_mnemonic line of (mnemonic, rest, cm) \<Rightarrow>
        (case (if write \<and> mnemonic \<in> jmpcodes
               then (case resolve_jmp s mnemonic (if cm then [] else rest) of
                       None \<Rightarrow> Inl (NotLabelNorImmediate line (linenum s))
                     | Some op0 \<Rightarrow> Inr (1, [op0, 0], [1, 0]))
               else (case read_operands (if cm then [] else rest) 0 [0, 0] [0, 0] of
                       None \<Rightarrow> Inl (LeadingComma line (linenum s))
                     | Some r \<Rightarrow> Inr r)) of
           Inl e \<Rightarrow> Inl e
         | Inr (numops0, ops, optype) \<Rightarrow>
             (let numops = (if optype ! 1 \<noteq> 0 then 2 else if optype ! 0 \<noteq> 0 then 1 else numops0)
              in case make_icode mnemonic (optype ! 0) (optype ! 1) of
                   None \<Rightarrow> Inl (InvalidMnemonic mnemonic (linenum s))
                 | Some icode \<Rightarrow>
                     (case imap icode of
                        None \<Rightarrow> Inl (InvalidInstruction line (linenum s) icode)
                      | Some m \<Rightarrow>
                          Inr ((emit_bytes write (m # take numops ops) (s\<lparr>mpc := m\<rparr>))
                                 \<lparr>linenum := linenum s + 1\<rparr>)))))"

subsection \<open>One line, one pass, the whole run\<close>

definition step :: "(u32 \<rightharpoonup> u8) \<Rightarrow> bool \<Rightarrow> asm_state \<Rightarrow> string \<Rightarrow> error + asm_state" where
  "step imap write s raw =
     (let line = trim raw in
      if line = [] then Inr (s\<lparr>linenum := linenum s + 1\<rparr>)
      else if hd line = CHR ''#'' then Inr (s\<lparr>linenum := linenum s + 1\<rparr>)
      else if hd line = CHR ''@'' then (if write then Inr s else directive_line s line)
      else (case regex_match CHR '':'' line of
              Some m \<Rightarrow>
                Inr ((if write then s
                      else s\<lparr>lblmap := (lblmap s)(substr m 0 (length m - 1) \<mapsto> word_of_int (caddr s))\<rparr>)
                       \<lparr>linenum := linenum s + 1\<rparr>)
            | None \<Rightarrow> instruction_line imap write s line))"

fun run_lines :: "(u32 \<rightharpoonup> u8) \<Rightarrow> bool \<Rightarrow> asm_state \<Rightarrow> string list \<Rightarrow> error + asm_state" where
  "run_lines imap write s [] = Inr s"
| "run_lines imap write s (l # ls) =
     (case step imap write s l of Inl e \<Rightarrow> Inl e | Inr s' \<Rightarrow> run_lines imap write s' ls)"

text \<open>
  One call of \<^verbatim>\<open>parse\<close>: the locals start afresh (\<^verbatim>\<open>mpc\<close> is not initialised by the
  source, so its starting value \<open>g\<close> is a parameter), the tables and the output persist.
\<close>

definition parse :: "(u32 \<rightharpoonup> u8) \<Rightarrow> bool \<Rightarrow> u8 \<Rightarrow> asm_state \<Rightarrow> string list \<Rightarrow> error + asm_state" where
  "parse imap write g s0 lines =
     (let s1 = s0\<lparr>caddr := 0, linenum := 1, mpc := g\<rparr>;
          s2 = (if adjustBase s1 \<and> write
                then s1\<lparr>caddr := caddr s1 + uint (dir_get (directives s1) ''base_addr''), adjustBase := False\<rparr>
                else s1)
      in run_lines imap write s2 lines)"

definition initial_state :: asm_state where
  "initial_state =
     \<lparr>lblmap = Map.empty, directives = [''base_addr'' \<mapsto> 0], adjustBase = False,
      caddr = 0, linenum = 1, mpc = 0, emitted = []\<rparr>"

text \<open>
  What the process leaves behind: the exit status, the output file, the text on the
  error stream and the byte count of the closing message. After \<^verbatim>\<open>err\<close> the output file
  is removed and the exit status is \<^verbatim>\<open>EXIT_FAILURE\<close>; otherwise the file holds the bytes
  written and the last console line reports \<^verbatim>\<open>caddr - directives["base_addr"]\<close>. The
  address listing on the console is not part of this record: the addresses it shows
  are those of \<open>emitted\<close> in the state.
\<close>

record run_result =
  exit_failure :: bool
  out_file :: "u8 list option"
  stderr_text :: string
  reported_bytes :: "int option"

definition failed :: "error \<Rightarrow> run_result" where
  "failed e = \<lparr>exit_failure = True, out_file = None, stderr_text = diagnostic e,
               reported_bytes = None\<rparr>"

definition finished :: "asm_state \<Rightarrow> run_result" where
  "finished s = \<lparr>exit_failure = False, out_file = Some (map snd (emitted s)), stderr_text = [],
                 reported_bytes = Some (caddr s - uint (dir_get (directives s) ''base_addr''))\<rparr>"

text \<open>The two calls of \<^verbatim>\<open>main\<close>; \<open>g1\<close> and \<open>g2\<close> are the uninitialised \<^verbatim>\<open>mpc\<close> of each.\<close>

definition assemble :: "(u32 \<rightharpoonup> u8) \<Rightarrow> u8 \<Rightarrow> u8 \<Rightarrow> string list \<Rightarrow> run_result" where
  "assemble imap g1 g2 lines =
     (case parse imap False g1 initial_state lines of
        Inl e \<Rightarrow> failed e
      | Inr s1 \<Rightarrow>
          (case parse imap True g2 s1 lines of
             Inl e \<Rightarrow> failed e
           | Inr s2 \<Rightarrow> finished s2))"

subsection \<open>Vocabulary of the properties\<close>

text \<open>
  The lines that reach the instruction branch of \<^verbatim>\<open>parse\<close>: not blank, not a comment,
  not a directive, and with no colon that the label pattern can reach.
\<close>

definition is_instruction :: "string \<Rightarrow> bool" where
  "is_instruction raw =
     (let line = trim raw
      in line \<noteq> [] \<and> hd line \<noteq> CHR ''#'' \<and> hd line \<noteq> CHR ''@'' \<and> regex_match CHR '':'' line = None)"

definition is_directive :: "string \<Rightarrow> bool" where
  "is_directive raw = (trim raw \<noteq> [] \<and> hd (trim raw) = CHR ''@'')"

text \<open>The part of an operand list that the operand loop reads: up to the first hash sign.\<close>

definition uncommented :: "string \<Rightarrow> string" where
  "uncommented rest = takeWhile (\<lambda>c. c \<noteq> CHR ''#'') rest"

text \<open>The usual reading of a hexadecimal numeral, for comparison with what the loops compute.\<close>

definition digit_value :: "char \<Rightarrow> nat" where
  "digit_value c =
     (let n = (of_char c :: nat)
      in if 48 \<le> n \<and> n \<le> 57 then n - 48
         else if 65 \<le> n \<and> n \<le> 70 then n - 55
         else if 97 \<le> n \<and> n \<le> 102 then n - 87
         else 0)"

definition is_hex_digit :: "char \<Rightarrow> bool" where
  "is_hex_digit c = (c \<in> set ''0123456789ABCDEFabcdef'')"

definition hex_literal :: "string \<Rightarrow> nat" where
  "hex_literal ds = foldl (\<lambda>a d. 16 * a + digit_value d) 0 ds"

text \<open>What a diagnostic quotes, and the line number it prints.\<close>

fun err_text :: "error \<Rightarrow> string" where
  "err_text (InvalidHexValue v n) = v"
| "err_text (InvalidDirective l n) = l"
| "err_text (InvalidAssignment l n) = l"
| "err_text (NotLabelNorImmediate l n) = l"
| "err_text (LeadingComma l n) = l"
| "err_text (InvalidMnemonic m n) = m"
| "err_text (InvalidInstruction l n k) = l"

fun err_line :: "error \<Rightarrow> int" where
  "err_line (InvalidHexValue v n) = n"
| "err_line (InvalidDirective l n) = n"
| "err_line (InvalidAssignment l n) = n"
| "err_line (NotLabelNorImmediate l n) = n"
| "err_line (LeadingComma l n) = n"
| "err_line (InvalidMnemonic m n) = n"
| "err_line (InvalidInstruction l n k) = n"

fun starts_with :: "string \<Rightarrow> string \<Rightarrow> bool" where
  "starts_with [] ys = True"
| "starts_with (x # xs) [] = False"
| "starts_with (x # xs) (y # ys) = (x = y \<and> starts_with xs ys)"

fun contains :: "string \<Rightarrow> string \<Rightarrow> bool" where
  "contains [] xs = (xs = [])"
| "contains (y # ys) xs = (starts_with xs (y # ys) \<or> contains ys xs)"

text \<open>The byte a mnemonic contributes at position \<open>i\<close> of the key: 0 past its end.\<close>

definition mnemonic_byte :: "string \<Rightarrow> nat \<Rightarrow> u32" where
  "mnemonic_byte mn i = (if i < length mn then of_char (mn ! i) else 0)"

text \<open>
  Two pass-1 states of which the second runs \<open>d\<close> addresses ahead of the first: the same
  line counter, the program address and every recorded label address \<open>d\<close> higher.
\<close>

definition shifted :: "int \<Rightarrow> asm_state \<Rightarrow> asm_state \<Rightarrow> bool" where
  "shifted d s s' =
     (caddr s' = caddr s + d \<and> linenum s' = linenum s \<and>
      (\<forall>n. lblmap s' n = map_option (\<lambda>a. a + word_of_int d) (lblmap s n)))"

text \<open>The bytes written so far stand at the consecutive addresses from \<open>b\<close> up to \<^verbatim>\<open>caddr\<close>.\<close>

definition addressed_from :: "int \<Rightarrow> asm_state \<Rightarrow> bool" where
  "addressed_from b s =
     (map fst (emitted s) = map (\<lambda>i. b + int i) [0..<length (emitted s)] \<and>
      caddr s = b + int (length (emitted s)))"

section \<open>Properties\<close>

subsection \<open>Evaluating the line \<^verbatim>\<open>ADD $04, 5\<close>\<close>

lemma add_line_trim: "trim ''ADD $04, 5'' = ''ADD $04, 5''"
  by code_simp

lemma add_line_no_label: "regex_match CHR '':'' ''ADD $04, 5'' = None"
  by code_simp

lemma add_line_mnemonic: "read_mnemonic ''ADD $04, 5'' = (''ADD'', ''$04, 5'', False)"
  by code_simp

lemma add_line_operands: "read_operands ''$04, 5'' 0 [0, 0] [0, 0] = Some (1, [4, 5], [2, 1])"
  by code_simp

lemma add_line_icode: "make_icode ''ADD'' 2 1 = Some 0x41444421"
  by code_simp

lemma add_not_jump: "''ADD'' \<notin> jmpcodes"
  by (simp add: jmpcodes_def)

text \<open>
  C9. For the line \<^verbatim>\<open>ADD $04, 5\<close> (direct address 0x04, immediate 0x05), whose lookup key
  is 0x41444421, and a mapping table that maps this key to a target byte \<open>m\<close>, a pass-2
  step succeeds and writes exactly three bytes at three consecutive addresses: \<open>m\<close>,
  then 0x04, then 0x05.
\<close>

theorem add_direct_immediate_emits_three_bytes:
  assumes "imap 0x41444421 = Some m"
  shows "make_icode ''ADD'' 2 1 = Some 0x41444421 \<and>
         step imap True s ''ADD $04, 5'' =
           Inr (s\<lparr>caddr := caddr s + 3, linenum := linenum s + 1, mpc := m,
                  emitted := emitted s @ [(caddr s, m), (caddr s + 1, 0x04), (caddr s + 2, 0x05)]\<rparr>)"
  using assms
  by (simp add: step_def add_line_trim add_line_no_label add_line_mnemonic add_line_operands
      add_line_icode add_not_jump instruction_line_def
      del: read_mnemonic.simps read_operands.simps)

theorem add_direct_immediate_witness:
  "imap_default 0x41444421 = Some 0x0B \<and>
   map_sum diagnostic (\<lambda>s. map snd (emitted s)) (step imap_default True initial_state ''ADD $04, 5'')
     = Inr [0x0B, 0x04, 0x05]"
  using add_direct_immediate_emits_three_bytes [of imap_default "0x0B" initial_state]
  by (simp add: imap_default_def initial_state_def)

subsection \<open>Characters\<close>

lemma of_char_int_range: "0 \<le> (of_char c :: int) \<and> (of_char c :: int) < 256"
proof -
  have "(of_char c :: int) mod 256 = of_char c" by simp
  then show ?thesis
    by (metis pos_mod_bound pos_mod_sign zero_less_numeral)
qed

lemma schar_inj: "schar c = schar d \<Longrightarrow> c = d"
  using of_char_int_range [of c] of_char_int_range [of d]
  by (auto simp: schar_def split: if_splits intro: of_char_eqI)

lemma schar_toupper:
  "schar (toupper c) = (if 97 \<le> schar c \<and> schar c \<le> 122 then schar c - 32 else schar c)"
proof (cases "97 \<le> schar c \<and> schar c \<le> 122")
  case True
  then have m: "(schar c - 32) mod 256 = schar c - 32" by simp
  have "toupper c = char_of (schar c - 32)" using True by (simp add: toupper_def)
  then have "schar (toupper c) = schar c - 32"
    using True m by (simp add: schar_def [of "char_of (schar c - 32)"])
  with True show ?thesis by simp
next
  case False
  then show ?thesis by (auto simp: toupper_def)
qed

text \<open>A character that is no letter is the upper case of itself only.\<close>

lemma toupper_eq_iff:
  assumes "\<not> (65 \<le> schar t \<and> schar t \<le> 90)" and "\<not> (97 \<le> schar t \<and> schar t \<le> 122)"
  shows "(toupper c = t) = (c = t)"
proof
  assume "toupper c = t"
  then have "schar (toupper c) = schar t" by simp
  then show "c = t" using assms by (auto simp: schar_toupper split: if_splits intro: schar_inj)
next
  assume "c = t"
  then show "toupper c = t" using assms by (auto simp: toupper_def)
qed

lemma schar_simps:
  "schar CHR '' '' = 32" "schar CHR ''#'' = 35" "schar CHR ''$'' = 36" "schar CHR '','' = 44"
  by (simp_all add: schar_def)

lemma toupper_space [simp]: "(toupper c = CHR '' '') = (c = CHR '' '')"
  by (rule toupper_eq_iff) (simp_all add: schar_simps)

lemma toupper_hash [simp]: "(toupper c = CHR ''#'') = (c = CHR ''#'')"
  by (rule toupper_eq_iff) (simp_all add: schar_simps)

lemma toupper_dollar [simp]: "(toupper c = CHR ''$'') = (c = CHR ''$'')"
  by (rule toupper_eq_iff) (simp_all add: schar_simps)

lemma toupper_comma [simp]: "(toupper c = CHR '','') = (c = CHR '','')"
  by (rule toupper_eq_iff) (simp_all add: schar_simps)

lemma not_hex_special [simp]:
  "\<not> is_hex CHR '' ''" "\<not> is_hex CHR ''#''" "\<not> is_hex CHR ''$''" "\<not> is_hex CHR '',''"
  by (simp_all add: is_hex_def schar_simps)

subsection \<open>Instruction lines in general\<close>

lemma read_mnemonic_no_comment: "snd (snd (read_mnemonic l)) = False"
  by (induction l) (auto split: prod.splits)

lemma read_mnemonic_flag: "read_mnemonic l = (mn, rest, cm) \<Longrightarrow> cm = False"
  using read_mnemonic_no_comment [of l] by simp

lemma step_instruction:
  "is_instruction raw \<Longrightarrow> step imap w s raw = instruction_line imap w s (trim raw)"
  by (simp add: step_def is_instruction_def Let_def)

text \<open>A jump or branch line of pass 2 whose operand resolves and whose key is mapped.\<close>

lemma jump_step:
  assumes "is_instruction raw" and "read_mnemonic (trim raw) = (mn, rest, cm)"
    and "mn \<in> jmpcodes" and "resolve_jmp s mn rest = Some v"
    and "make_icode mn 1 0 = Some k" and "imap k = Some m"
  shows "step imap True s raw =
           Inr (s\<lparr>caddr := caddr s + 2, linenum := linenum s + 1, mpc := m,
                  emitted := emitted s @ [(caddr s, m), (caddr s + 1, v)]\<rparr>)"
proof -
  have cm: "cm = False" using assms(2) by (rule read_mnemonic_flag)
  show ?thesis
    using assms cm by (simp add: step_instruction instruction_line_def)
qed

lemma resolve_label_branch:
  assumes "hd mn = CHR ''B''" and "lblmap s (trim (fst (jmp_scan rest [] 0))) = Some a"
  shows "resolve_jmp s mn rest =
           Some (if uint a < caddr s then word_of_int (sint a - (caddr s + 2))
                 else word_of_int (sint a - (caddr s + 1)))"
  using assms
  by (cases "jmp_scan rest [] 0") (simp add: resolve_jmp_def ALU_CARRY_ADJUST_def Let_def)

lemma br_icode: "make_icode ''BR'' 1 0 = Some 0x42520010"
  by code_simp

lemma br_is_jump: "''BR'' \<in> jmpcodes"
  by (simp add: jmpcodes_def)

subsection \<open>Relative branches to a label\<close>

text \<open>
  C1. Take any pass-2 state and any instruction line whose mnemonic reads \<^verbatim>\<open>BR\<close> and
  whose operand text, trimmed, is a label that the label table holds with address 0x02.
  If the operand byte of the branch sits at program address 0x18 (the opcode is at
  \<open>caddr = 0x17\<close>, the operand one further), and the key of \<^verbatim>\<open>BR X\<close> is mapped to \<open>m\<close>, the
  step writes \<open>m\<close> at 0x17 and the operand byte 0xE9 at 0x18; and 0xE9 is the byte of
  0x02 - (0x18 + 1). The label lies before the branch, so the source takes its
  back-branch formula 0x02 - (0x17 + 2), which is the same number. The value of the
  base address plays no part once the label is found.
\<close>

theorem branch_to_label_at_0x18:
  assumes "is_instruction raw" and "read_mnemonic (trim raw) = (''BR'', rest, cm)"
    and "lblmap s (trim (fst (jmp_scan rest [] 0))) = Some 0x02"
    and "caddr s + 1 = 0x18"
    and "imap 0x42520010 = Some m"
  shows "step imap True s raw =
           Inr (s\<lparr>caddr := 0x19, linenum := linenum s + 1, mpc := m,
                  emitted := emitted s @ [(0x17, m), (0x18, 0xE9)]\<rparr>)
         \<and> (0xE9 :: u8) = word_of_int (0x02 - (0x18 + 1))"
proof -
  have c: "caddr s = 0x17" using assms(4) by simp
  have r: "resolve_jmp s ''BR'' rest = Some 0xE9"
    using resolve_label_branch [of "''BR''" s rest "0x02"] assms(3) c by simp
  show ?thesis
    using jump_step [where imap = imap and m = m, OF assms(1,2) br_is_jump r br_icode assms(5)] c
    by simp
qed

lemma br_lab1_instruction: "is_instruction ''BR lab1''"
  by code_simp

lemma br_lab1_mnemonic: "read_mnemonic (trim ''BR lab1'') = (''BR'', ''lab1'', False)"
  by code_simp

lemma br_lab1_operand: "trim (fst (jmp_scan ''lab1'' [] 0)) = ''lab1''"
  by code_simp

theorem branch_to_label_at_0x18_witness:
  "is_instruction ''BR lab1'' \<and>
   read_mnemonic (trim ''BR lab1'') = (''BR'', ''lab1'', False) \<and>
   lblmap (initial_state\<lparr>lblmap := [''lab1'' \<mapsto> 0x02], caddr := 0x17\<rparr>)
     (trim (fst (jmp_scan ''lab1'' [] 0))) = Some 0x02 \<and>
   caddr (initial_state\<lparr>lblmap := [''lab1'' \<mapsto> 0x02], caddr := 0x17\<rparr>) + 1 = 0x18 \<and>
   imap_default 0x42520010 = Some 0x80 \<and>
   map_sum diagnostic emitted
     (step imap_default True (initial_state\<lparr>lblmap := [''lab1'' \<mapsto> 0x02], caddr := 0x17\<rparr>) ''BR lab1'')
     = Inr [(0x17, 0x80), (0x18, 0xE9)]"
proof -
  let ?s = "initial_state\<lparr>lblmap := [''lab1'' \<mapsto> 0x02], caddr := 0x17\<rparr>"
  have h3: "lblmap ?s (trim (fst (jmp_scan ''lab1'' [] 0))) = Some 0x02"
    by code_simp
  have h4: "caddr ?s + 1 = 0x18" by simp
  have h5: "imap_default 0x42520010 = Some 0x80" by (simp add: imap_default_def)
  show ?thesis
    using branch_to_label_at_0x18 [where imap = imap_default and m = "0x80",
        OF br_lab1_instruction br_lab1_mnemonic h3 h4 h5]
      br_lab1_instruction br_lab1_mnemonic h3 h5
    by (simp add: initial_state_def)
qed

text \<open>
  The same on a whole program with no directive: two one-byte instructions, the label
  (address 0x02), seven three-byte instructions, then the branch, whose opcode lands on
  0x17 and whose operand on 0x18.
\<close>

lemma branch_program_run:
  "out_file (assemble imap_default g1 g2
     [''HLT'', ''HLT'', ''lab1:'', ''MOV $04, 3'', ''MOV $04, 3'', ''MOV $04, 3'', ''MOV $04, 3'',
      ''MOV $04, 3'', ''MOV $04, 3'', ''MOV $04, 3'', ''BR lab1'']) =
   Some [0x03, 0x03, 0x04, 0x04, 0x03, 0x04, 0x04, 0x03, 0x04, 0x04, 0x03, 0x04, 0x04, 0x03,
         0x04, 0x04, 0x03, 0x04, 0x04, 0x03, 0x04, 0x04, 0x03, 0x80, 0xE9]"
  by code_simp

text \<open>
  Were the opcode of the branch, not its operand, at 0x18, the byte would be 0xE8: the
  label still lies before the branch, and the source subtracts 0x18 + 2.
\<close>

lemma branch_opcode_at_0x18:
  assumes "is_instruction raw" and "read_mnemonic (trim raw) = (''BR'', rest, cm)"
    and "lblmap s (trim (fst (jmp_scan rest [] 0))) = Some 0x02"
    and "caddr s = 0x18"
    and "imap 0x42520010 = Some m"
  shows "step imap True s raw =
           Inr (s\<lparr>caddr := 0x1A, linenum := linenum s + 1, mpc := m,
                  emitted := emitted s @ [(0x18, m), (0x19, 0xE8)]\<rparr>)"
proof -
  have r: "resolve_jmp s ''BR'' rest = Some 0xE8"
    using resolve_label_branch [of "''BR''" s rest "0x02"] assms(3,4) by simp
  show ?thesis
    using jump_step [where imap = imap and m = m, OF assms(1,2) br_is_jump r br_icode assms(5)] assms(4)
    by simp
qed

text \<open>
  C2. Take any pass-2 state and any instruction line whose mnemonic is one of the jump
  codes and starts with \<^verbatim>\<open>B\<close> (\<^verbatim>\<open>BR\<close>, \<^verbatim>\<open>BRZ\<close>, \<^verbatim>\<open>BRN\<close>), whose operand text, trimmed, is a
  label that the label table holds with the byte \<open>a\<close>, and whose key is mapped to \<open>m\<close>.
  The step writes \<open>m\<close> at the current program address \<open>caddr\<close> and then the operand byte:
  when \<open>a\<close>, read unsigned, is strictly less than \<open>caddr\<close>, the byte of
  \<open>sint a - (caddr + ALU_CARRY_ADJUST)\<close>, and otherwise the byte of \<open>sint a - (caddr + 1)\<close>.
  The adjustment constant is 2. The label's address is the byte the label table records,
  and the current program address is that of the branch's opcode.
\<close>

theorem relative_branch_offset:
  assumes "is_instruction raw" and "read_mnemonic (trim raw) = (mn, rest, cm)"
    and "mn \<in> jmpcodes" and "hd mn = CHR ''B''"
    and "lblmap s (trim (fst (jmp_scan rest [] 0))) = Some a"
    and "make_icode mn 1 0 = Some k" and "imap k = Some m"
  shows "step imap True s raw =
           Inr (s\<lparr>caddr := caddr s + 2, linenum := linenum s + 1, mpc := m,
                  emitted := emitted s @
                    [(caddr s, m),
                     (caddr s + 1,
                      if uint a < caddr s then word_of_int (sint a - (caddr s + ALU_CARRY_ADJUST))
                      else word_of_int (sint a - (caddr s + 1)))]\<rparr>)
         \<and> ALU_CARRY_ADJUST = 2"
proof -
  have r: "resolve_jmp s mn rest =
             Some (if uint a < caddr s then word_of_int (sint a - (caddr s + 2))
                   else word_of_int (sint a - (caddr s + 1)))"
    using assms(4,5) by (rule resolve_label_branch)
  show ?thesis
    using jump_step [where imap = imap and k = k and m = m, OF assms(1,2,3) r assms(6,7)]
    by (simp add: ALU_CARRY_ADJUST_def)
qed

lemma br_next_instruction: "is_instruction ''br next''"
  by code_simp

lemma br_next_mnemonic: "read_mnemonic (trim ''br next'') = (''BR'', ''next'', False)"
  by code_simp

lemma br_next_operand: "trim (fst (jmp_scan ''next'' [] 0)) = ''next''"
  by code_simp

theorem relative_branch_offset_witness:
  "is_instruction ''br next'' \<and>
   read_mnemonic (trim ''br next'') = (''BR'', ''next'', False) \<and>
   ''BR'' \<in> jmpcodes \<and> hd ''BR'' = CHR ''B'' \<and>
   lblmap (initial_state\<lparr>lblmap := [''next'' \<mapsto> 0x30], caddr := 0x10\<rparr>)
     (trim (fst (jmp_scan ''next'' [] 0))) = Some 0x30 \<and>
   make_icode ''BR'' 1 0 = Some 0x42520010 \<and>
   imap_default 0x42520010 = Some 0x80 \<and>
   map_sum diagnostic emitted
     (step imap_default True (initial_state\<lparr>lblmap := [''next'' \<mapsto> 0x30], caddr := 0x10\<rparr>) ''br next'')
     = Inr [(0x10, 0x80), (0x11, 0x1F)]"
proof -
  let ?s = "initial_state\<lparr>lblmap := [''next'' \<mapsto> 0x30], caddr := 0x10\<rparr>"
  have h4: "hd ''BR'' = CHR ''B''" by simp
  have h5: "lblmap ?s (trim (fst (jmp_scan ''next'' [] 0))) = Some 0x30"
    by code_simp
  have h7: "imap_default 0x42520010 = Some 0x80" by (simp add: imap_default_def)
  show ?thesis
    using relative_branch_offset [where imap = imap_default and m = "0x80",
        OF br_next_instruction br_next_mnemonic br_is_jump h4 h5 br_icode h7]
      br_next_instruction br_next_mnemonic br_is_jump h5 br_icode h7
    by (simp add: initial_state_def)
qed

subsection \<open>Runs stop at the first error\<close>

lemma run_lines_append:
  "run_lines imap w s (xs @ ys) =
     (case run_lines imap w s xs of Inl e \<Rightarrow> Inl e | Inr s' \<Rightarrow> run_lines imap w s' ys)"
  by (induction xs arbitrary: s) (auto split: sum.splits)

lemma run_lines_abort:
  "run_lines imap w s pre = Inr s' \<Longrightarrow> step imap w s' l = Inl e \<Longrightarrow>
   run_lines imap w s (pre @ l # post) = Inl e"
  by (simp add: run_lines_append)

lemma parse_abort:
  "parse imap w g s0 pre = Inr s' \<Longrightarrow> step imap w s' l = Inl e \<Longrightarrow>
   parse imap w g s0 (pre @ l # post) = Inl e"
  by (auto simp: parse_def Let_def run_lines_abort split: if_splits)

subsection \<open>The label table\<close>

lemma emit_bytes_lblmap [simp]: "lblmap (emit_bytes w bs s) = lblmap s"
  by (induction bs arbitrary: s) auto

lemma instruction_line_lblmap:
  "instruction_line imap w s line = Inr s' \<Longrightarrow> lblmap s' = lblmap s"
  by (auto simp: instruction_line_def Let_def split: prod.splits if_splits option.splits sum.splits)

lemma step_pass2_lblmap: "step imap True s raw = Inr s' \<Longrightarrow> lblmap s' = lblmap s"
  by (auto simp: step_def Let_def split: if_splits option.splits dest: instruction_line_lblmap)

lemma run_lines_pass2_lblmap:
  "run_lines imap True s ls = Inr s' \<Longrightarrow> lblmap s' = lblmap s"
proof (induction ls arbitrary: s)
  case Nil
  then show ?case by simp
next
  case (Cons l ls)
  then show ?case
    by (auto split: sum.splits dest: step_pass2_lblmap)
qed

lemma parse_pass2_lblmap:
  "parse imap True g s0 ls = Inr s' \<Longrightarrow> lblmap s' = lblmap s0"
  by (auto simp: parse_def Let_def split: if_splits dest: run_lines_pass2_lblmap)

lemma label_step:
  assumes "trim raw \<noteq> []" and "hd (trim raw) \<noteq> CHR ''#''" and "hd (trim raw) \<noteq> CHR ''@''"
    and "regex_match CHR '':'' (trim raw) = Some m"
  shows "step imap False s raw =
     Inr (s\<lparr>lblmap := (lblmap s)(substr m 0 (length m - 1) \<mapsto> word_of_int (caddr s)),
            linenum := linenum s + 1\<rparr>)"
  using assms by (simp add: step_def Let_def)

text \<open>
  C8. Every pass-2 step that succeeds leaves the label table as it was, and so does a
  whole pass 2. In pass 1 a label line (not blank, not a comment, not a directive, the
  label pattern matching \<open>m\<close>) always succeeds and stores the low byte of the current
  address under the matched text without its final colon, whatever the table held under
  that name before: a later definition replaces an earlier one and no error is raised.
\<close>

theorem label_table_written_in_pass1_only:
  "(step imap True s raw = Inr s' \<longrightarrow> lblmap s' = lblmap s) \<and>
   (parse imap True g s0 prog = Inr s2 \<longrightarrow> lblmap s2 = lblmap s0) \<and>
   (trim l \<noteq> [] \<and> hd (trim l) \<noteq> CHR ''#'' \<and> hd (trim l) \<noteq> CHR ''@'' \<and>
    regex_match CHR '':'' (trim l) = Some m \<longrightarrow>
      step imap False s l =
        Inr (s\<lparr>lblmap := (lblmap s)(substr m 0 (length m - 1) \<mapsto> word_of_int (caddr s)),
               linenum := linenum s + 1\<rparr>))"
  using step_pass2_lblmap [of imap s raw s'] parse_pass2_lblmap [of imap g s0 prog s2]
    label_step [of l m imap s]
  by blast

lemma lab1_line:
  "trim ''lab1:'' \<noteq> [] \<and> hd (trim ''lab1:'') \<noteq> CHR ''#'' \<and> hd (trim ''lab1:'') \<noteq> CHR ''@'' \<and>
   regex_match CHR '':'' (trim ''lab1:'') = Some ''lab1:''"
  by code_simp

lemma hlt_step_succeeds:
  "\<not> isl (step imap_default True (initial_state\<lparr>lblmap := [''lab1'' \<mapsto> 7], caddr := 9\<rparr>) ''HLT'')"
  by code_simp

lemma hlt_pass_succeeds:
  "\<not> isl (parse imap_default True 0 (initial_state\<lparr>lblmap := [''lab1'' \<mapsto> 7], caddr := 9\<rparr>)
            [''HLT'', ''lab1:''])"
  by code_simp

theorem label_table_written_in_pass1_only_witness:
  "lblmap (initial_state\<lparr>lblmap := [''lab1'' \<mapsto> 7], caddr := 9\<rparr>) ''lab1'' = Some 7 \<and>
   regex_match CHR '':'' (trim ''lab1:'') = Some ''lab1:'' \<and>
   map_sum diagnostic (\<lambda>t. lblmap t ''lab1'')
     (step imap_default False (initial_state\<lparr>lblmap := [''lab1'' \<mapsto> 7], caddr := 9\<rparr>) ''lab1:'')
     = Inr (Some 9) \<and>
   map_sum diagnostic (\<lambda>t. lblmap t ''lab1'')
     (step imap_default True (initial_state\<lparr>lblmap := [''lab1'' \<mapsto> 7], caddr := 9\<rparr>) ''HLT'')
     = Inr (Some 7) \<and>
   map_sum diagnostic (\<lambda>t. lblmap t ''lab1'')
     (parse imap_default True 0 (initial_state\<lparr>lblmap := [''lab1'' \<mapsto> 7], caddr := 9\<rparr>)
        [''HLT'', ''lab1:''])
     = Inr (Some 7)"
proof -
  let ?s = "initial_state\<lparr>lblmap := [''lab1'' \<mapsto> 7], caddr := 9\<rparr>"
  obtain t where t: "step imap_default True ?s ''HLT'' = Inr t"
    using hlt_step_succeeds by (cases "step imap_default True ?s ''HLT''") auto
  obtain u where u: "parse imap_default True 0 ?s [''HLT'', ''lab1:''] = Inr u"
    using hlt_pass_succeeds by (cases "parse imap_default True 0 ?s [''HLT'', ''lab1:'']") auto
  show ?thesis
    using label_table_written_in_pass1_only
      [of imap_default ?s "''HLT''" t 0 ?s "[''HLT'', ''lab1:'']" u "''lab1:''" "''lab1:''"]
      t u lab1_line
    by (simp add: substr_def)
qed

text \<open>On a whole pass 1: the second definition of \<^verbatim>\<open>lab1\<close> wins and nothing fails.\<close>

lemma duplicate_label_run:
  "map_sum diagnostic (\<lambda>t. lblmap t ''lab1'')
     (parse imap_default False g initial_state [''lab1:'', ''HLT'', ''lab1:'']) = Inr (Some 1)"
  by code_simp

subsection \<open>The generic operand loop\<close>

text \<open>The loop fails exactly on a second comma before any hash sign.\<close>

lemma read_operands_comma:
  "(read_operands rest n ops optype = None) =
     (if n = 0 then 2 \<le> count_list (uncommented rest) CHR '',''
      else 1 \<le> count_list (uncommented rest) CHR '','')"
  by (induction rest arbitrary: n ops optype) (auto simp: uncommented_def Let_def)

lemma read_operands_no_operand:
  assumes "\<forall>c \<in> set (uncommented rest). \<not> is_hex (toupper c) \<and> c \<noteq> CHR ''$'' \<and> c \<noteq> CHR '',''"
  shows "read_operands rest n ops optype = Some (n, ops, optype)"
  using assms
  by (induction rest arbitrary: n ops optype) (auto simp: uncommented_def Let_def split: if_splits)

text \<open>
  C5, as the code has it. An instruction line read by the generic operand loop (every
  instruction line in pass 1; in pass 2 every one whose mnemonic is not a jump code)
  with two or more commas before any hash sign fails with the "leading comma"
  diagnostic, which quotes the trimmed line and the line counter.
\<close>

theorem second_comma_is_error:
  assumes "is_instruction raw" and "read_mnemonic (trim raw) = (mn, rest, cm)"
    and "\<not> (w \<and> mn \<in> jmpcodes)"
    and "2 \<le> count_list (uncommented rest) CHR '',''"
  shows "step imap w s raw = Inl (LeadingComma (trim raw) (linenum s))"
proof -
  have cm: "cm = False" using assms(2) by (rule read_mnemonic_flag)
  have ops: "read_operands rest 0 [0, 0] [0, 0] = None"
    using assms(4) by (simp add: read_operands_comma)
  show ?thesis
    using assms(1,2,3) cm ops by (auto simp: step_instruction instruction_line_def)
qed

lemma two_commas_instruction: "is_instruction ''ADD $04,,5''"
  by code_simp

lemma two_commas_mnemonic: "read_mnemonic (trim ''ADD $04,,5'') = (''ADD'', ''$04,,5'', False)"
  by code_simp

lemma two_commas_count: "2 \<le> count_list (uncommented ''$04,,5'') CHR '',''"
  by code_simp

theorem second_comma_is_error_witness:
  "is_instruction ''ADD $04,,5'' \<and>
   read_mnemonic (trim ''ADD $04,,5'') = (''ADD'', ''$04,,5'', False) \<and>
   2 \<le> count_list (uncommented ''$04,,5'') CHR '','' \<and>
   step imap_default True initial_state ''ADD $04,,5'' = Inl (LeadingComma ''ADD $04,,5'' 1)"
proof -
  have j: "\<not> (True \<and> ''ADD'' \<in> jmpcodes)" by (simp add: jmpcodes_def)
  have t: "trim ''ADD $04,,5'' = ''ADD $04,,5''" by code_simp
  show ?thesis
    using second_comma_is_error [where imap = imap_default and s = initial_state,
        OF two_commas_instruction two_commas_mnemonic j two_commas_count]
      two_commas_instruction two_commas_mnemonic two_commas_count t
    by (simp add: initial_state_def)
qed

text \<open>
  C5 as stated fails where a comma comes before any operand: \<^verbatim>\<open>ADD ,5\<close> has one comma,
  which only moves the loop to the second operand. With a table that maps the key of
  "no first operand, immediate second operand" (a mapping.conf line \<^verbatim>\<open>ADD ,X : 0C\<close> gives
  it) the run succeeds; with the built-in table it fails, but as an unmapped
  instruction.
\<close>

theorem leading_comma_accepted:
  "exit_failure (assemble (imap_default(0x41444401 \<mapsto> 0x0C)) 0 0 [''ADD ,5'']) = False \<and>
   out_file (assemble (imap_default(0x41444401 \<mapsto> 0x0C)) 0 0 [''ADD ,5'']) = Some [0x0C, 0x00, 0x05] \<and>
   stderr_text (assemble imap_default 0 0 [''ADD ,5'']) =
     diagnostic (InvalidInstruction ''ADD ,5'' 1 0x41444401)"
  by code_simp

subsection \<open>Jump operands without a hexadecimal digit\<close>

text \<open>
  C10. Pass 1 reads every instruction line with the generic operand loop. Take a line
  whose mnemonic is a jump code and whose operand text (up to a hash sign) has no
  character that is a hexadecimal digit after upper-casing, and, as a label name has
  none, no dollar sign and no comma. The loop finds no operand, so the key is the one
  of the mnemonic with no operands; when the mapping table has no entry for that key
  (the built-in one has none), the step fails as an unmapped instruction, whatever the
  label table holds. If pass 1 has come through the lines before it, the whole run
  fails there with that diagnostic and no output file.
\<close>

theorem jump_to_hexless_label_fails_in_pass1:
  assumes "is_instruction raw" and "read_mnemonic (trim raw) = (mn, rest, cm)"
    and "mn \<in> jmpcodes"
    and "\<forall>c \<in> set (uncommented rest). \<not> is_hex (toupper c) \<and> c \<noteq> CHR ''$'' \<and> c \<noteq> CHR '',''"
    and "make_icode mn 0 0 = Some k" and "imap k = None"
    and "parse imap False g1 initial_state pre = Inr s"
  shows "step imap False s raw = Inl (InvalidInstruction (trim raw) (linenum s) k) \<and>
         assemble imap g1 g2 (pre @ raw # post) = failed (InvalidInstruction (trim raw) (linenum s) k)"
proof -
  have cm: "cm = False" using assms(2) by (rule read_mnemonic_flag)
  have ops: "read_operands rest 0 [0, 0] [0, 0] = Some (0, [0, 0], [0, 0])"
    using assms(4) by (rule read_operands_no_operand)
  have st: "step imap False s raw = Inl (InvalidInstruction (trim raw) (linenum s) k)"
    using assms(1,2,5,6) cm ops by (simp add: step_instruction instruction_line_def)
  have "parse imap False g1 initial_state (pre @ raw # post) =
          Inl (InvalidInstruction (trim raw) (linenum s) k)"
    using assms(7) st by (rule parse_abort)
  then show ?thesis using st by (simp add: assemble_def)
qed

lemma jmp_loop_instruction: "is_instruction ''JMP loop''"
  by code_simp

lemma jmp_loop_mnemonic: "read_mnemonic (trim ''JMP loop'') = (''JMP'', ''loop'', False)"
  by code_simp

lemma jmp_loop_hexless:
  "\<forall>c \<in> set (uncommented ''loop''). \<not> is_hex (toupper c) \<and> c \<noteq> CHR ''$'' \<and> c \<noteq> CHR '',''"
  by code_simp

lemma jmp_no_operand_icode: "make_icode ''JMP'' 0 0 = Some 0x4A4D5000"
  by code_simp

lemma loop_label_pass1:
  "parse imap_default False 0 initial_state [''loop:''] =
     Inr (initial_state\<lparr>lblmap := [''loop'' \<mapsto> 0], linenum := 2\<rparr>)"
proof -
  have a: "trim ''loop:'' = ''loop:''" by code_simp
  have b: "regex_match CHR '':'' ''loop:'' = Some ''loop:''" by code_simp
  show ?thesis
    by (simp add: parse_def initial_state_def step_def a b substr_def)
qed

theorem jump_to_hexless_label_fails_in_pass1_witness:
  "is_instruction ''JMP loop'' \<and>
   read_mnemonic (trim ''JMP loop'') = (''JMP'', ''loop'', False) \<and>
   ''JMP'' \<in> jmpcodes \<and>
   list_all (\<lambda>c. \<not> is_hex (toupper c) \<and> c \<noteq> CHR ''$'' \<and> c \<noteq> CHR '','') (uncommented ''loop'') \<and>
   make_icode ''JMP'' 0 0 = Some 0x4A4D5000 \<and>
   imap_default 0x4A4D5000 = None \<and>
   lblmap (initial_state\<lparr>lblmap := [''loop'' \<mapsto> 0], linenum := 2\<rparr>) ''loop'' = Some 0 \<and>
   assemble imap_default 0 0 ([''loop:''] @ ''JMP loop'' # []) =
     failed (InvalidInstruction ''JMP loop'' 2 0x4A4D5000)"
proof -
  have j: "''JMP'' \<in> jmpcodes" by (simp add: jmpcodes_def)
  have n: "imap_default 0x4A4D5000 = None" by (simp add: imap_default_def)
  have t: "trim ''JMP loop'' = ''JMP loop''" by code_simp
  show ?thesis
    using jump_to_hexless_label_fails_in_pass1 [where imap = imap_default and ?g2.0 = 0 and post = "[]",
        OF jmp_loop_instruction jmp_loop_mnemonic j jmp_loop_hexless jmp_no_operand_icode n
          loop_label_pass1]
      jmp_loop_instruction jmp_loop_mnemonic j jmp_loop_hexless jmp_no_operand_icode n t
    by (simp add: list_all_iff)
qed

subsection \<open>Jump operands that are no label\<close>

lemma trim_no_space: "\<forall>c \<in> set xs. \<not> is_space c \<Longrightarrow> trim xs = xs"
proof -
  assume a: "\<forall>c \<in> set xs. \<not> is_space c"
  have d: "dropWhile is_space ys = ys" if "\<forall>c \<in> set ys. \<not> is_space c" for ys
    using that by (cases ys) auto
  show ?thesis using a by (simp add: trim_def d)
qed

lemma hex_digit_plain: "is_hex_digit d \<Longrightarrow> \<not> is_space d \<and> d \<noteq> CHR ''#''"
  by (auto simp: is_hex_digit_def is_space_def)

text \<open>Trimming removes the spaces in front of a run of hexadecimal digits.\<close>

lemma trim_spaces_digits:
  assumes "\<forall>d \<in> set ds. is_hex_digit d"
  shows "trim (replicate n CHR '' '' @ ds) = ds"
proof -
  have ns: "\<forall>c \<in> set ds. \<not> is_space c" using assms hex_digit_plain by blast
  have sp: "\<forall>c \<in> set (replicate n CHR '' ''). is_space c" by (simp add: is_space_def)
  have "dropWhile is_space ds = ds" using ns by (cases ds) auto
  then have "dropWhile is_space (replicate n CHR '' '' @ ds) = ds"
    using sp by (simp add: dropWhile_append)
  moreover have "rev (dropWhile is_space (rev ds)) = ds"
    using trim_no_space [OF ns] by (simp add: trim_def \<open>dropWhile is_space ds = ds\<close>)
  ultimately show ?thesis by (simp add: trim_def)
qed

lemma digit_nibble:
  "is_hex_digit d \<Longrightarrow> hexval (toupper d) AND 0x0F = word_of_nat (digit_value d)"
  by (auto simp: is_hex_digit_def hexval_def toupper_def schar_def digit_value_def)

lemma shift_in_add:
  assumes "is_hex_digit d"
  shows "shift_in x (toupper d) = 16 * x + word_of_nat (digit_value d)"
proof -
  have m: "(0x0F :: u8) = mask 4" by (simp add: mask_eq_decr_exp)
  have "push_bit 4 x OR (hexval (toupper d) AND 0x0F) = push_bit 4 x + (hexval (toupper d) AND 0x0F)"
    unfolding m
    by (rule disjunctive_add_eq_or [symmetric]) (simp add: bit_eq_iff bit_simps)
  then show ?thesis
    using assms by (simp add: shift_in_def digit_nibble push_bit_eq_mult)
qed

lemma shift_in_space: "shift_in 0 (toupper CHR '' '') = 0"
  by code_simp

text \<open>
  The scan reads the text up to a hash sign: that text is the candidate label, and all
  of its characters, spaces too, are shifted into the byte.
\<close>

lemma jmp_scan_uncommented:
  "jmp_scan rest lbl v =
     (lbl @ uncommented rest, foldl (\<lambda>a c. shift_in a (toupper c)) v (uncommented rest))"
  by (induction rest arbitrary: lbl v) (simp_all add: uncommented_def)

lemma scan_spaces: "foldl (\<lambda>a c. shift_in a (toupper c)) 0 (replicate n CHR '' '') = 0"
  by (induction n) (simp_all add: shift_in_space)

text \<open>On hexadecimal digits the scan computes the numeral's value, modulo 256.\<close>

lemma scan_digits:
  "\<forall>d \<in> set ds. is_hex_digit d \<Longrightarrow>
   foldl (\<lambda>a c. shift_in a (toupper c)) (word_of_nat n) ds =
     word_of_nat (foldl (\<lambda>a d. 16 * a + digit_value d) n ds)"
proof (induction ds arbitrary: n)
  case Nil
  then show ?case by simp
next
  case (Cons d ds)
  have h: "is_hex_digit d" using Cons.prems by simp
  have s: "shift_in (word_of_nat n) (toupper d) = word_of_nat (16 * n + digit_value d)"
    using h by (simp add: shift_in_add)
  show ?case
    using Cons.prems Cons.IH [of "16 * n + digit_value d"] by (simp add: s)
qed

lemma scan_spaces_digits:
  assumes "uncommented rest = replicate n CHR '' '' @ ds" and "\<forall>d \<in> set ds. is_hex_digit d"
  shows "snd (jmp_scan rest [] 0) = word_of_nat (hex_literal ds)"
proof -
  have "foldl (\<lambda>a c. shift_in a (toupper c)) 0 (replicate n CHR '' '' @ ds) =
          foldl (\<lambda>a c. shift_in a (toupper c)) (word_of_nat 0) ds"
    by (simp add: scan_spaces)
  also have "\<dots> = word_of_nat (hex_literal ds)"
    unfolding hex_literal_def using assms(2) by (rule scan_digits)
  finally show ?thesis
    by (simp add: jmp_scan_uncommented assms(1))
qed

lemma resolve_immediate:
  assumes "lblmap s (trim (uncommented rest)) = None"
    and "length (trim (uncommented rest)) \<le> 2"
  shows "resolve_jmp s mn rest = Some (snd (jmp_scan rest [] 0) + dir_get (directives s) ''base_addr'')"
  using assms by (simp add: resolve_jmp_def Let_def jmp_scan_uncommented)

lemma resolve_too_long:
  assumes "lblmap s (trim (uncommented rest)) = None"
    and "2 < length (trim (uncommented rest))"
  shows "resolve_jmp s mn rest = None"
  using assms by (simp add: resolve_jmp_def Let_def jmp_scan_uncommented)

lemma jump_step_error:
  assumes "is_instruction raw" and "read_mnemonic (trim raw) = (mn, rest, cm)"
    and "mn \<in> jmpcodes" and "resolve_jmp s mn rest = None"
  shows "step imap True s raw = Inl (NotLabelNorImmediate (trim raw) (linenum s))"
proof -
  have cm: "cm = False" using assms(2) by (rule read_mnemonic_flag)
  show ?thesis
    using assms cm by (simp add: step_instruction instruction_line_def)
qed

text \<open>
  C3, as the code has it. Take a pass-2 state and an instruction line whose mnemonic is a
  jump code and whose operand text, which is the text after the mnemonic up to a hash
  sign, trimmed, is not in the label table. If the operand text is longer than two
  characters, the step fails with the "neither label nor immediate" diagnostic. If the
  mnemonic is one of the absolute jumps (\<^verbatim>\<open>JMP\<close>, \<^verbatim>\<open>JSR\<close>: a jump code that does not
  start with \<^verbatim>\<open>B\<close>), the text after the mnemonic up to a hash sign is at most two
  hexadecimal digits with nothing but spaces before them and nothing after them, and the
  key is mapped to \<open>m\<close>, the step writes \<open>m\<close> and then the value of the numeral plus the
  value of the \<^verbatim>\<open>base_addr\<close> directive, modulo 256.
\<close>

theorem jump_immediate_operand:
  assumes "is_instruction raw" and "read_mnemonic (trim raw) = (mn, rest, cm)"
    and "mn \<in> jmpcodes"
    and "lblmap s (trim (uncommented rest)) = None"
  shows "(2 < length (trim (uncommented rest)) \<longrightarrow>
            step imap True s raw = Inl (NotLabelNorImmediate (trim raw) (linenum s))) \<and>
         (hd mn \<noteq> CHR ''B'' \<and> uncommented rest = replicate n CHR '' '' @ ds \<and>
          length ds \<le> 2 \<and> (\<forall>d \<in> set ds. is_hex_digit d) \<and>
          make_icode mn 1 0 = Some k \<and> imap k = Some m \<longrightarrow>
            step imap True s raw =
              Inr (s\<lparr>caddr := caddr s + 2, linenum := linenum s + 1, mpc := m,
                     emitted := emitted s @
                       [(caddr s, m),
                        (caddr s + 1,
                         word_of_nat (hex_literal ds) + dir_get (directives s) ''base_addr'')]\<rparr>))"
proof (intro conjI impI)
  assume "2 < length (trim (uncommented rest))"
  then have "resolve_jmp s mn rest = None"
    using assms(4) by (simp add: resolve_too_long)
  then show "step imap True s raw = Inl (NotLabelNorImmediate (trim raw) (linenum s))"
    using assms(1,2,3) by (simp add: jump_step_error)
next
  assume a: "hd mn \<noteq> CHR ''B'' \<and> uncommented rest = replicate n CHR '' '' @ ds \<and>
             length ds \<le> 2 \<and> (\<forall>d \<in> set ds. is_hex_digit d) \<and>
             make_icode mn 1 0 = Some k \<and> imap k = Some m"
  then have u: "uncommented rest = replicate n CHR '' '' @ ds"
    and hx: "\<forall>d \<in> set ds. is_hex_digit d" by simp_all
  have tr: "trim (uncommented rest) = ds"
    unfolding u using hx by (rule trim_spaces_digits)
  have sc: "snd (jmp_scan rest [] 0) = word_of_nat (hex_literal ds)"
    using u hx by (rule scan_spaces_digits)
  have ld: "length ds \<le> 2" using a by simp
  have len: "length (trim (uncommented rest)) \<le> 2" by (simp only: tr ld)
  have r0: "resolve_jmp s mn rest =
              Some (snd (jmp_scan rest [] 0) + dir_get (directives s) ''base_addr'')"
    using assms(4) len by (rule resolve_immediate)
  have r: "resolve_jmp s mn rest =
             Some (word_of_nat (hex_literal ds) + dir_get (directives s) ''base_addr'')"
    by (simp only: r0 sc)
  have k: "make_icode mn 1 0 = Some k" and m: "imap k = Some m" using a by simp_all
  show "step imap True s raw =
          Inr (s\<lparr>caddr := caddr s + 2, linenum := linenum s + 1, mpc := m,
                 emitted := emitted s @
                   [(caddr s, m),
                    (caddr s + 1,
                     word_of_nat (hex_literal ds) + dir_get (directives s) ''base_addr'')]\<rparr>)"
    using assms(1,2,3) r k m by (rule jump_step)
qed

lemma jmp_05_instruction: "is_instruction ''JMP  05#c''"
  by code_simp

lemma jmp_05_mnemonic: "read_mnemonic (trim ''JMP  05#c'') = (''JMP'', '' 05#c'', False)"
  by code_simp

lemma jmp_05_text:
  "uncommented '' 05#c'' = replicate 1 CHR '' '' @ ''05'' \<and> trim (uncommented '' 05#c'') = ''05''"
  by code_simp

lemma jmp_123_instruction: "is_instruction ''JMP 123''"
  by code_simp

lemma jmp_123_mnemonic: "read_mnemonic (trim ''JMP 123'') = (''JMP'', ''123'', False)"
  by code_simp

lemma jmp_123_text: "trim (uncommented ''123'') = ''123'' \<and> trim ''JMP 123'' = ''JMP 123''"
  by code_simp

lemma jmp_icode: "make_icode ''JMP'' 1 0 = Some 0x4A4D5010"
  by code_simp

lemma jmp_is_jump: "''JMP'' \<in> jmpcodes"
  by (simp add: jmpcodes_def)

theorem jump_immediate_operand_witness:
  "is_instruction ''JMP  05#c'' \<and> is_instruction ''JMP 123'' \<and>
   read_mnemonic (trim ''JMP  05#c'') = (''JMP'', '' 05#c'', False) \<and>
   read_mnemonic (trim ''JMP 123'') = (''JMP'', ''123'', False) \<and>
   ''JMP'' \<in> jmpcodes \<and> hd ''JMP'' \<noteq> CHR ''B'' \<and>
   2 < length (trim (uncommented ''123'')) \<and>
   uncommented '' 05#c'' = replicate 1 CHR '' '' @ ''05'' \<and>
   list_all is_hex_digit ''05'' \<and> hex_literal ''05'' = 5 \<and>
   make_icode ''JMP'' 1 0 = Some 0x4A4D5010 \<and>
   imap_default 0x4A4D5010 = Some 0x50 \<and>
   step imap_default True (initial_state\<lparr>directives := [''base_addr'' \<mapsto> 0x1F], caddr := 0x1F\<rparr>) ''JMP 123''
     = Inl (NotLabelNorImmediate ''JMP 123'' 1) \<and>
   map_sum diagnostic emitted
     (step imap_default True (initial_state\<lparr>directives := [''base_addr'' \<mapsto> 0x1F], caddr := 0x1F\<rparr>)
        ''JMP  05#c'')
     = Inr [(0x1F, 0x50), (0x20, 0x24)]"
proof -
  let ?s = "initial_state\<lparr>directives := [''base_addr'' \<mapsto> 0x1F], caddr := 0x1F\<rparr>"
  have n1: "lblmap ?s (trim (uncommented '' 05#c'')) = None" by (simp add: initial_state_def)
  have n2: "lblmap ?s (trim (uncommented ''123'')) = None" by (simp add: initial_state_def)
  have hb: "hd ''JMP'' \<noteq> CHR ''B''" by simp
  have hx: "\<forall>d \<in> set ''05''. is_hex_digit d" by code_simp
  have hl: "hex_literal ''05'' = 5" by code_simp
  have m: "imap_default 0x4A4D5010 = Some 0x50" by (simp add: imap_default_def)
  have l: "linenum ?s = 1" by (simp add: initial_state_def)
  have e: "step imap_default True ?s ''JMP 123'' = Inl (NotLabelNorImmediate ''JMP 123'' 1)"
    using jump_immediate_operand [where imap = imap_default,
        OF jmp_123_instruction jmp_123_mnemonic jmp_is_jump n2] jmp_123_text l
    by simp
  have two: "length ''05'' \<le> 2" by simp
  have pre: "hd ''JMP'' \<noteq> CHR ''B'' \<and> uncommented '' 05#c'' = replicate 1 CHR '' '' @ ''05'' \<and>
             length ''05'' \<le> 2 \<and> (\<forall>d \<in> set ''05''. is_hex_digit d) \<and>
             make_icode ''JMP'' 1 0 = Some 0x4A4D5010 \<and> imap_default 0x4A4D5010 = Some 0x50"
    by (intro conjI, rule hb, rule jmp_05_text [THEN conjunct1], rule two, rule hx, rule jmp_icode, rule m)
  have w: "step imap_default True ?s ''JMP  05#c'' =
             Inr (?s\<lparr>caddr := caddr ?s + 2, linenum := linenum ?s + 1, mpc := 0x50,
                    emitted := emitted ?s @
                      [(caddr ?s, 0x50),
                       (caddr ?s + 1, word_of_nat (hex_literal ''05'') + dir_get (directives ?s) ''base_addr'')]\<rparr>)"
    using jump_immediate_operand [where imap = imap_default and m = "0x50" and k = "0x4A4D5010"
          and n = 1 and ds = "''05''",
        OF jmp_05_instruction jmp_05_mnemonic jmp_is_jump n1, THEN conjunct2, THEN mp, OF pre]
    by simp
  have w': "map_sum diagnostic emitted (step imap_default True ?s ''JMP  05#c'')
              = Inr [(0x1F, 0x50), (0x20, 0x24)]"
    unfolding w by (simp add: hl dir_get_def initial_state_def)
  show ?thesis
    using e w' jmp_05_instruction jmp_123_instruction jmp_05_mnemonic jmp_123_mnemonic jmp_is_jump
      jmp_05_text jmp_123_text hx hl jmp_icode m
    by (simp add: list_all_iff)
qed

text \<open>
  C3 as stated fails when a base address is set: the numeral \<^verbatim>\<open>05\<close> is no label here
  and has two hexadecimal digits, yet the operand byte written is 0x24 = 0x05 + 0x1F.
\<close>

theorem jump_immediate_shifted_by_base:
  "out_file (assemble imap_default 0 0 [''@base_addr=1F'', ''JMP 05'']) = Some [0x50, 0x24] \<and>
   (word_of_nat (hex_literal ''05'') :: u8) = 0x05"
  by code_simp

text \<open>
  Two cases that the statement above leaves aside. A space between the numeral and a
  hash sign is shifted into the byte like a digit 0, although the candidate label is
  trimmed: \<^verbatim>\<open>JMP 05 #c\<close> writes 0x50. And the base address is added to the literal
  operand of the relative branches too, where the source's header comment reads the
  operand as a displacement (\<^verbatim>\<open>BR FC\<close> is to branch to PC - 4): with base address 0x1F,
  \<^verbatim>\<open>BR FC\<close> writes 0x1B.
\<close>

lemma jump_literal_before_comment:
  "out_file (assemble imap_default 0 0 [''JMP 05 #c'']) = Some [0x50, 0x50]"
  by code_simp

lemma branch_literal_with_base:
  "out_file (assemble imap_default 0 0 [''@base_addr=1F'', ''BR FC'']) = Some [0x80, 0x1B]"
  by code_simp

subsection \<open>The lookup key\<close>

lemma key_bytes:
  fixes a b c l :: u32
  shows "drop_bit 24 (push_bit 24 (take_bit 8 a) OR push_bit 16 (take_bit 8 b) OR
           push_bit 8 (take_bit 8 c) OR take_bit 8 l) = take_bit 8 a"
    and "take_bit 8 (drop_bit 16 (push_bit 24 (take_bit 8 a) OR push_bit 16 (take_bit 8 b) OR
           push_bit 8 (take_bit 8 c) OR take_bit 8 l)) = take_bit 8 b"
    and "take_bit 8 (drop_bit 8 (push_bit 24 (take_bit 8 a) OR push_bit 16 (take_bit 8 b) OR
           push_bit 8 (take_bit 8 c) OR take_bit 8 l)) = take_bit 8 c"
    and "take_bit 8 (push_bit 24 (take_bit 8 a) OR push_bit 16 (take_bit 8 b) OR
           push_bit 8 (take_bit 8 c) OR take_bit 8 l) = take_bit 8 l"
  by (rule bit_eqI; auto simp: bit_simps)+

lemma ascii_word: "0 \<le> schar c \<Longrightarrow> (word_of_int (schar c) :: u32) = of_char c"
  using of_char_int_range [of c] by (auto simp: schar_def of_int_of_char split: if_splits)

lemma of_char_byte: "take_bit 8 (of_char c :: u32) = of_char c"
proof -
  have "take_bit 8 (of_nat (of_char c :: nat) :: u32) = of_nat (take_bit 8 (of_char c :: nat))"
    by (simp only: take_bit_of_nat)
  moreover have "take_bit 8 (of_char c :: nat) = of_char c"
    by (simp add: take_bit_eq_mod)
  ultimately show ?thesis by (simp add: of_nat_of_char)
qed

lemma mnemonic_byte_take: "take_bit 8 (mnemonic_byte mn i) = mnemonic_byte mn i"
  by (simp add: mnemonic_byte_def of_char_byte)

lemma tag_cases: "(t :: u8) \<le> 2 \<Longrightarrow> t = 0 \<or> t = 1 \<or> t = 2"
proof -
  assume "t \<le> 2"
  then have "unat t \<le> 2" by (simp add: word_le_nat_alt)
  then have c: "unat t = 0 \<or> unat t = 1 \<or> unat t = 2" by arith
  have 0: "t = 0" if "unat t = 0"
  proof -
    have "word_of_nat (unat t) = (0 :: u8)" using that by simp
    then show ?thesis by simp
  qed
  have 1: "t = 1" if "unat t = 1"
  proof -
    have "word_of_nat (unat t) = (1 :: u8)" using that by simp
    then show ?thesis by simp
  qed
  have 2: "t = 2" if "unat t = 2"
  proof -
    have "word_of_nat (unat t) = (2 :: u8)" using that by simp
    then show ?thesis by simp
  qed
  show ?thesis using c 0 1 2 by blast
qed

lemma tag_byte:
  assumes "(t0 :: u8) \<le> 2" and "(t1 :: u8) \<le> 2"
  shows "take_bit 8 (push_bit 4 (ucast t0) OR ucast t1 :: u32) = push_bit 4 (ucast t0) OR ucast t1"
    and "(ucast t1 AND 0x0F :: u32) = ucast t1"
  using tag_cases [OF assms(1)] tag_cases [OF assms(2)] by (elim disjE; simp)+

text \<open>The loop over an ASCII mnemonic of at most three characters.\<close>

lemma pack_ascii:
  assumes "length mn \<le> 3" and "\<forall>c \<in> set mn. 0 \<le> schar c"
  shows "pack_mnemonic mn 0 0 =
           Some (push_bit 24 (mnemonic_byte mn 0) OR push_bit 16 (mnemonic_byte mn 1) OR
                 push_bit 8 (mnemonic_byte mn 2))"
proof -
  consider "mn = []" | c0 where "mn = [c0]" | c0 c1 where "mn = [c0, c1]"
    | c0 c1 c2 where "mn = [c0, c1, c2]"
    using assms(1)
    by (cases mn; cases "tl mn"; cases "tl (tl mn)"; cases "tl (tl (tl mn))") auto
  then show ?thesis
    using assms(2)
    by cases (simp_all add: mnemonic_byte_def ascii_word or.assoc)
qed

lemma pack_long: "i \<le> 3 \<Longrightarrow> 3 < i + length mn \<Longrightarrow> pack_mnemonic mn i k = None"
  by (induction mn i k rule: pack_mnemonic.induct) auto

lemma make_icode_long: "3 < length mn \<Longrightarrow> make_icode mn t0 t1 = None"
  by (simp add: make_icode_def pack_long)

lemma jmpcodes_short: "mn \<in> jmpcodes \<Longrightarrow> length mn \<le> 3"
  by (auto simp: jmpcodes_def)

lemma long_mnemonic_step:
  assumes "is_instruction raw" and "3 < length (fst (read_mnemonic (trim raw)))"
  shows "step imap w s raw = Inl (LeadingComma (trim raw) (linenum s)) \<or>
         step imap w s raw = Inl (InvalidMnemonic (fst (read_mnemonic (trim raw))) (linenum s))"
proof -
  obtain mn rest cm where r: "read_mnemonic (trim raw) = (mn, rest, cm)"
    by (cases "read_mnemonic (trim raw)") auto
  have l: "3 < length mn" using assms(2) r by simp
  have j: "mn \<notin> jmpcodes" using l jmpcodes_short [of mn] by auto
  show ?thesis
    using assms(1) r j make_icode_long [OF l]
    by (auto simp: step_instruction instruction_line_def Let_def split: option.splits prod.splits)
qed

text \<open>
  C4. For a mnemonic of at most three ASCII characters (the spec's data model packs the
  mnemonic's ASCII bytes) and operand-type tags among 0, 1, 2, the key exists; its byte 3
  is the first character, byte 2 the second, byte 1 the third, each 0 where the mnemonic
  is shorter, and byte 0 is the first tag shifted left by four, or-ed with the second.
  For a mnemonic of more than three characters no key is made, and an instruction line
  with such a mnemonic makes the step fail in either pass: with the invalid-mnemonic
  diagnostic, unless the operand loop has already failed on a second comma.
\<close>

theorem lookup_key_packing:
  "(length mn \<le> 3 \<and> (\<forall>c \<in> set mn. 0 \<le> schar c) \<and> t0 \<le> 2 \<and> t1 \<le> 2 \<longrightarrow>
      (\<exists>k. make_icode mn t0 t1 = Some k \<and>
           drop_bit 24 k = mnemonic_byte mn 0 \<and>
           take_bit 8 (drop_bit 16 k) = mnemonic_byte mn 1 \<and>
           take_bit 8 (drop_bit 8 k) = mnemonic_byte mn 2 \<and>
           take_bit 8 k = push_bit 4 (ucast t0) OR ucast t1)) \<and>
   (3 < length mn \<longrightarrow> make_icode mn t0 t1 = None) \<and>
   (is_instruction raw \<and> 3 < length (fst (read_mnemonic (trim raw))) \<longrightarrow>
      step imap w s raw = Inl (LeadingComma (trim raw) (linenum s)) \<or>
      step imap w s raw = Inl (InvalidMnemonic (fst (read_mnemonic (trim raw))) (linenum s)))"
proof (intro conjI impI)
  assume a: "length mn \<le> 3 \<and> (\<forall>c \<in> set mn. 0 \<le> schar c) \<and> t0 \<le> 2 \<and> t1 \<le> 2"
  let ?l = "push_bit 4 (ucast t0) OR ucast t1 :: u32"
  let ?k = "push_bit 24 (mnemonic_byte mn 0) OR push_bit 16 (mnemonic_byte mn 1) OR
            push_bit 8 (mnemonic_byte mn 2) OR ?l"
  have t: "take_bit 8 ?l = ?l"
    using tag_byte(1) [of t0 t1] a by blast
  have u: "(ucast t1 AND 0x0F :: u32) = ucast t1"
    using tag_byte(2) [of t0 t1] a by blast
  have k: "make_icode mn t0 t1 = Some ?k"
    using a by (simp add: make_icode_def pack_ascii u or.assoc)
  note b = key_bytes [of "mnemonic_byte mn 0" "mnemonic_byte mn 1" "mnemonic_byte mn 2" ?l,
      unfolded mnemonic_byte_take t]
  show "\<exists>k. make_icode mn t0 t1 = Some k \<and>
           drop_bit 24 k = mnemonic_byte mn 0 \<and>
           take_bit 8 (drop_bit 16 k) = mnemonic_byte mn 1 \<and>
           take_bit 8 (drop_bit 8 k) = mnemonic_byte mn 2 \<and>
           take_bit 8 k = push_bit 4 (ucast t0) OR ucast t1"
    using k b by blast
next
  assume "3 < length mn"
  then show "make_icode mn t0 t1 = None" by (rule make_icode_long)
next
  assume "is_instruction raw \<and> 3 < length (fst (read_mnemonic (trim raw)))"
  then show "step imap w s raw = Inl (LeadingComma (trim raw) (linenum s)) \<or>
      step imap w s raw = Inl (InvalidMnemonic (fst (read_mnemonic (trim raw))) (linenum s))"
    by (simp add: long_mnemonic_step)
qed

lemma addx_line:
  "is_instruction ''ADDX $04, 5'' \<and> fst (read_mnemonic (trim ''ADDX $04, 5'')) = ''ADDX'' \<and>
   trim ''ADDX $04, 5'' = ''ADDX $04, 5''"
  by code_simp

lemma addx_no_comma:
  "map_sum id (\<lambda>t. ()) (step imap_default False initial_state ''ADDX $04, 5'')
     \<noteq> Inl (LeadingComma ''ADDX $04, 5'' 1)"
  by code_simp

lemma add_ascii: "list_all (\<lambda>c. 0 \<le> schar c) ''ADD''"
  by code_simp

lemma add_bytes:
  "mnemonic_byte ''ADD'' 0 = 0x41 \<and> mnemonic_byte ''ADD'' 1 = 0x44 \<and> mnemonic_byte ''ADD'' 2 = 0x44 \<and>
   mnemonic_byte ''OR'' 2 = 0"
  by code_simp

theorem lookup_key_packing_witness:
  "length ''ADD'' \<le> 3 \<and> list_all (\<lambda>c. 0 \<le> schar c) ''ADD'' \<and> (2 :: u8) \<le> 2 \<and> (1 :: u8) \<le> 2 \<and>
   (\<exists>k. make_icode ''ADD'' 2 1 = Some k \<and> drop_bit 24 k = 0x41 \<and>
         take_bit 8 (drop_bit 16 k) = 0x44 \<and> take_bit 8 (drop_bit 8 k) = 0x44 \<and> take_bit 8 k = 0x21) \<and>
   3 < length ''ADDX'' \<and> make_icode ''ADDX'' 2 1 = None \<and>
   is_instruction ''ADDX $04, 5'' \<and>
   step imap_default False initial_state ''ADDX $04, 5'' = Inl (InvalidMnemonic ''ADDX'' 1)"
proof -
  have l: "linenum initial_state = 1" by (simp add: initial_state_def)
  have a: "length ''ADD'' \<le> 3 \<and> (\<forall>c \<in> set ''ADD''. 0 \<le> schar c) \<and> (2 :: u8) \<le> 2 \<and> (1 :: u8) \<le> 2"
    using add_ascii by (simp add: list_all_iff)
  have e: "\<exists>k. make_icode ''ADD'' 2 1 = Some k \<and> drop_bit 24 k = mnemonic_byte ''ADD'' 0 \<and>
         take_bit 8 (drop_bit 16 k) = mnemonic_byte ''ADD'' 1 \<and>
         take_bit 8 (drop_bit 8 k) = mnemonic_byte ''ADD'' 2 \<and>
         take_bit 8 k = push_bit 4 (ucast (2 :: u8)) OR ucast (1 :: u8)"
    using lookup_key_packing [of "''ADD''" 2 1 "''ADDX $04, 5''" imap_default False initial_state] a
    by blast
  have e': "\<exists>k. make_icode ''ADD'' 2 1 = Some k \<and> drop_bit 24 k = 0x41 \<and>
         take_bit 8 (drop_bit 16 k) = 0x44 \<and> take_bit 8 (drop_bit 8 k) = 0x44 \<and> take_bit 8 k = 0x21"
    using e add_bytes by simp
  have n: "make_icode ''ADDX'' 2 1 = None"
    using lookup_key_packing [of "''ADDX''" 2 1 "''ADDX $04, 5''" imap_default False initial_state]
    by simp
  have s: "step imap_default False initial_state ''ADDX $04, 5'' = Inl (InvalidMnemonic ''ADDX'' 1)"
    using lookup_key_packing [of "''ADDX''" 2 1 "''ADDX $04, 5''" imap_default False initial_state]
      addx_line addx_no_comma l
    by auto
  show ?thesis
    using e' n s add_ascii addx_line by simp
qed

subsection \<open>What an error leaves behind\<close>

lemma upto_last_split:
  assumes "d \<in> set seg"
  shows "\<exists>pre post. seg = pre @ d # post \<and> d \<notin> set post \<and> upto_last d seg = pre @ [d]"
proof -
  obtain pre post where s: "seg = pre @ d # post" and n: "d \<notin> set post"
    using assms by (meson split_list_last)
  have "dropWhile (\<lambda>c. c \<noteq> d) (rev post @ d # rev pre) = d # rev pre"
    using n by (auto simp: dropWhile_append)
  then have "upto_last d seg = pre @ [d]"
    by (simp add: upto_last_def s)
  then show ?thesis using s n by blast
qed

text \<open>The value text of a directive line: what follows the matched prefix.\<close>

lemma directive_value_text:
  assumes "regex_match d line = Some m" and "line \<noteq> []" and "hd line \<noteq> d"
  shows "substr line (length (substr m 1 (length m - 2)) + 2) (length line - length (substr m 1 (length m - 2)))
           = drop (length m) line"
proof -
  let ?seg = "takeWhile (\<lambda>c. \<not> is_eol c) line"
  have in_seg: "d \<in> set ?seg" and m: "m = upto_last d ?seg"
    using assms(1) by (auto simp: regex_match_def Let_def split: if_splits)
  obtain pre post where seg: "?seg = pre @ d # post" and up: "upto_last d ?seg = pre @ [d]"
    using upto_last_split [OF in_seg] by blast
  have "?seg \<noteq> []" using seg by simp
  then have "hd ?seg = hd line"
    by (cases line) (auto split: if_splits)
  then have "pre \<noteq> []" using seg assms(3) by (cases pre) auto
  then have two: "2 \<le> length m" using m up by (cases pre) auto
  have "length ?seg \<le> length line" by (rule length_takeWhile_le)
  then have le: "length m \<le> length line" using m up seg by simp
  have a: "length (substr m 1 (length m - 2)) = length m - 2"
    by (simp add: substr_def)
  have b: "length (substr m 1 (length m - 2)) + 2 = length m"
    using two a by arith
  have c: "substr line (length (substr m 1 (length m - 2)) + 2) n = take n (drop (length m) line)" for n
    by (simp only: b, simp only: substr_def)
  have d: "length (drop (length m) line) \<le> length line - length (substr m 1 (length m - 2))"
    by (simp only: a length_drop)
  show ?thesis by (simp only: c take_all [OF d])
qed

lemma instruction_line_error:
  assumes "instruction_line imap w s line = Inl e"
  shows "err_line e = linenum s \<and>
         (err_text e = line \<or> e = InvalidMnemonic (fst (read_mnemonic line)) (linenum s))"
  using assms
  by (auto simp: instruction_line_def Let_def split: prod.splits if_splits option.splits sum.splits)

lemma step_error_shape:
  assumes "step imap w s raw = Inl e"
  shows "err_line e = linenum s \<and>
         (err_text e = trim raw \<or>
          e = InvalidMnemonic (fst (read_mnemonic (trim raw))) (linenum s) \<or>
          (is_directive raw \<and>
           (\<exists>m. regex_match CHR ''='' (trim raw) = Some m \<and>
                e = InvalidHexValue (trim (drop (length m) (trim raw))) (linenum s))))"
proof (cases "is_directive raw")
  case True
  then have ne: "trim raw \<noteq> []" and hd: "hd (trim raw) = CHR ''@''"
    by (simp_all add: is_directive_def)
  have d: "directive_line s (trim raw) = Inl e" and "\<not> w"
    using assms ne hd by (auto simp: step_def Let_def split: if_splits)
  show ?thesis
  proof (cases "regex_match CHR ''='' (trim raw)")
    case None
    then show ?thesis using d by (auto simp: directive_line_def)
  next
    case (Some m)
    have v: "substr (trim raw) (length (substr m 1 (length m - 2)) + 2)
               (length (trim raw) - length (substr m 1 (length m - 2))) = drop (length m) (trim raw)"
    proof -
      have "hd (trim raw) \<noteq> CHR ''=''" using hd by simp
      with Some ne show ?thesis by (rule directive_value_text)
    qed
    show ?thesis
      using d True unfolding directive_line_def Some option.case Let_def v
      by (auto split: if_splits option.splits)
  qed
next
  case False
  then have "step imap w s raw = instruction_line imap w s (trim raw)"
    using assms by (auto simp: step_def is_directive_def Let_def split: if_splits option.splits)
  then have il: "instruction_line imap w s (trim raw) = Inl e"
    using assms by simp
  show ?thesis
    using instruction_line_error [OF il] by blast
qed

lemma shapeI:
  "diagnostic e = quoted_at what (err_text e) (err_line e) @ rest \<Longrightarrow>
   \<exists>what rest. diagnostic e = quoted_at what (err_text e) (err_line e) @ rest"
  by blast

lemma diagnostic_shape:
  "\<exists>what rest. diagnostic e = quoted_at what (err_text e) (err_line e) @ rest"
  by (cases e; hypsubst; rule shapeI; simp only: diagnostic.simps err_text.simps err_line.simps)

lemma emit_bytes_linenum [simp]: "linenum (emit_bytes w bs s) = linenum s"
  by (induction bs arbitrary: s) auto

lemma instruction_line_linenum:
  "instruction_line imap w s line = Inr s' \<Longrightarrow> linenum s' = linenum s + 1"
  by (auto simp: instruction_line_def Let_def split: prod.splits if_splits option.splits sum.splits)

lemma step_linenum:
  assumes "\<not> is_directive raw" and "step imap w s raw = Inr s'"
  shows "linenum s' = linenum s + 1"
  using assms
  by (auto simp: step_def is_directive_def Let_def split: if_splits option.splits
      dest: instruction_line_linenum)

lemma run_lines_linenum:
  assumes "\<forall>l \<in> set ls. \<not> is_directive l" and "run_lines imap w s ls = Inr s'"
  shows "linenum s' = linenum s + int (length ls)"
  using assms
proof (induction ls arbitrary: s)
  case Nil
  then show ?case by simp
next
  case (Cons l ls)
  then obtain t where t: "step imap w s l = Inr t" and r: "run_lines imap w t ls = Inr s'"
    by (auto split: sum.splits)
  have "linenum t = linenum s + 1" using step_linenum [of l imap w s t] Cons.prems(1) t by simp
  moreover have "\<forall>x \<in> set ls. \<not> is_directive x" using Cons.prems(1) by simp
  then have "linenum s' = linenum t + int (length ls)" using r by (rule Cons.IH)
  ultimately show ?case by simp
qed

lemma parse_linenum:
  assumes "\<forall>l \<in> set ls. \<not> is_directive l" and "parse imap w g s0 ls = Inr s'"
  shows "linenum s' = 1 + int (length ls)"
  using assms(2) run_lines_linenum [OF assms(1), of imap w _ s']
  by (auto simp: parse_def Let_def split: if_splits)

text \<open>
  C6, as the code has it. Let a pass have come through the lines \<open>pre\<close> and let the step
  on the next line \<open>l\<close> fail with \<open>e\<close>. Then the pass fails with \<open>e\<close> whatever lines
  follow; the run fails with it, in pass 1 and in pass 2 alike, leaving no output file,
  the failure exit status, and the diagnostic of \<open>e\<close>, which quotes a text and prints the
  line counter. The text is the trimmed line, except that the invalid-mnemonic
  diagnostic quotes the mnemonic and the invalid-hex-value diagnostic the trimmed text
  after the directive's last equals sign. The counter is the number of the line when no
  directive line comes before it.
\<close>

theorem hard_error_aborts_run:
  assumes "parse imap w g s0 pre = Inr s" and "step imap w s l = Inl e"
  shows "parse imap w g s0 (pre @ l # post) = Inl e \<and>
         (\<not> w \<and> s0 = initial_state \<longrightarrow> assemble imap g g2 (pre @ l # post) = failed e) \<and>
         (w \<and> parse imap False g1 initial_state (pre @ l # post) = Inr s0 \<longrightarrow>
            assemble imap g1 g (pre @ l # post) = failed e) \<and>
         exit_failure (failed e) \<and> out_file (failed e) = None \<and>
         (\<exists>what rest. stderr_text (failed e) = quoted_at what (err_text e) (err_line e) @ rest) \<and>
         err_line e = linenum s \<and>
         ((\<forall>x \<in> set pre. \<not> is_directive x) \<longrightarrow> err_line e = 1 + int (length pre)) \<and>
         (err_text e = trim l \<or>
          e = InvalidMnemonic (fst (read_mnemonic (trim l))) (linenum s) \<or>
          (is_directive l \<and>
           (\<exists>m. regex_match CHR ''='' (trim l) = Some m \<and>
                e = InvalidHexValue (trim (drop (length m) (trim l))) (linenum s))))"
proof -
  have p: "parse imap w g s0 (pre @ l # post) = Inl e"
    using assms by (rule parse_abort)
  have a1: "\<not> w \<and> s0 = initial_state \<longrightarrow> assemble imap g g2 (pre @ l # post) = failed e"
    using p by (auto simp: assemble_def)
  have a2: "w \<and> parse imap False g1 initial_state (pre @ l # post) = Inr s0 \<longrightarrow>
            assemble imap g1 g (pre @ l # post) = failed e"
    using p by (auto simp: assemble_def)
  have f: "exit_failure (failed e) \<and> out_file (failed e) = None"
    by (simp add: failed_def)
  have d: "\<exists>what rest. stderr_text (failed e) = quoted_at what (err_text e) (err_line e) @ rest"
    using diagnostic_shape [of e] by (simp add: failed_def)
  note sh = step_error_shape [OF assms(2)]
  have n: "(\<forall>x \<in> set pre. \<not> is_directive x) \<longrightarrow> err_line e = 1 + int (length pre)"
    using sh parse_linenum [of pre imap w g s0 s] assms(1) by auto
  show ?thesis using p a1 a2 f d sh n by blast
qed

lemma hlt_foo_pass1:
  "\<not> isl (parse imap_default False 0 initial_state [''HLT''])"
  by code_simp

lemma foo_step_fails:
  "map_sum id (\<lambda>t. ()) (run_lines imap_default False (initial_state\<lparr>caddr := 1, linenum := 2, mpc := 3\<rparr>) [''FOO $1''])
     = Inl (InvalidInstruction ''FOO $1'' 2 0x464F4F20)"
  by code_simp

theorem hard_error_aborts_run_witness:
  "parse imap_default False 0 initial_state [''HLT'']
     = Inr (initial_state\<lparr>caddr := 1, linenum := 2, mpc := 3\<rparr>) \<and>
   step imap_default False (initial_state\<lparr>caddr := 1, linenum := 2, mpc := 3\<rparr>) ''FOO $1''
     = Inl (InvalidInstruction ''FOO $1'' 2 0x464F4F20) \<and>
   assemble imap_default 0 0 ([''HLT''] @ ''FOO $1'' # [''HLT'', ''BAR''])
     = failed (InvalidInstruction ''FOO $1'' 2 0x464F4F20) \<and>
   out_file (assemble imap_default 0 0 ([''HLT''] @ ''FOO $1'' # [''HLT'', ''BAR''])) = None \<and>
   exit_failure (assemble imap_default 0 0 ([''HLT''] @ ''FOO $1'' # [''HLT'', ''BAR'']))"
proof -
  let ?s = "initial_state\<lparr>caddr := 1, linenum := 2, mpc := 3\<rparr>"
  let ?e = "InvalidInstruction ''FOO $1'' 2 0x464F4F20"
  have t: "trim ''HLT'' = ''HLT''" by code_simp
  have r: "regex_match CHR '':'' ''HLT'' = None" by code_simp
  have m: "read_mnemonic ''HLT'' = (''HLT'', [], False)" by code_simp
  have k: "make_icode ''HLT'' 0 0 = Some 0x484C5400" by code_simp
  have j: "''HLT'' \<notin> jmpcodes" by (simp add: jmpcodes_def)
  have p: "parse imap_default False 0 initial_state [''HLT''] = Inr ?s"
    by (simp add: parse_def initial_state_def step_def instruction_line_def t r m k j imap_default_def
        del: read_mnemonic.simps)
  have t2: "trim ''FOO $1'' = ''FOO $1''" by code_simp
  have r2: "regex_match CHR '':'' ''FOO $1'' = None" by code_simp
  have m2: "read_mnemonic ''FOO $1'' = (''FOO'', ''$1'', False)" by code_simp
  have o2: "read_operands ''$1'' 0 [0, 0] [0, 0] = Some (0, [1, 0], [2, 0])" by code_simp
  have k2: "make_icode ''FOO'' 2 0 = Some 0x464F4F20" by code_simp
  have s: "step imap_default False ?s ''FOO $1'' = Inl ?e"
    by (simp add: initial_state_def step_def instruction_line_def t2 r2 m2 o2 k2 imap_default_def
        del: read_mnemonic.simps read_operands.simps)
  show ?thesis
    using hard_error_aborts_run [where imap = imap_default and ?g2.0 = 0 and post = "[''HLT'', ''BAR'']",
        OF p s] p s
    by simp
qed

text \<open>
  C6 as stated fails on the content: for a mnemonic of four characters the diagnostic
  quotes the mnemonic, and the line \<^verbatim>\<open>ADDX $04, 5\<close> does not occur in it.
\<close>

theorem invalid_mnemonic_diagnostic_omits_line:
  "stderr_text (assemble imap_default 0 0 [''ADDX $04, 5'']) =
     ''Error: Invalid Mnemonic: '' @ [CHR 0x22] @ ''ADDX'' @ [CHR 0x22] @ '' [line 1]'' @ [CHR 0x0A] \<and>
   \<not> contains (stderr_text (assemble imap_default 0 0 [''ADDX $04, 5''])) ''ADDX $04, 5''"
  by code_simp

text \<open>
  The line counter is not advanced on a directive line, in either pass (every other kind
  of line advances it): after a directive the number printed is one less than the
  number of the line.
\<close>

lemma line_counter_after_directive:
  "stderr_text (assemble imap_default 0 0 [''@base_addr=1F'', ''FOO'']) =
     diagnostic (InvalidInstruction ''FOO'' 1 0x464F4F00)"
  by code_simp

subsection \<open>The base address directive\<close>

lemma base_1F_value: "dir_value g ''1F'' = Some 0x1F"
proof -
  have a: "toupper CHR ''1'' = CHR ''1''" "toupper CHR ''F'' = CHR ''F''" by code_simp+
  have h: "is_hex CHR ''1''" "is_hex CHR ''F''" by code_simp+
  have v: "hexval CHR ''1'' AND 0x0F = 1" "hexval CHR ''F'' AND 0x0F = 0x0F" by code_simp+
  have "push_bit 4 (push_bit 4 g OR (1 :: u8)) OR 0x0F = 0x1F"
    by simp
  then show ?thesis by (simp add: a h shift_in_def v)
qed

lemma base_line:
  "trim ''@base_addr=1F'' = ''@base_addr=1F''"
  "regex_match CHR ''='' ''@base_addr=1F'' = Some ''@base_addr=''"
  "trim (substr ''@base_addr='' 1 (length ''@base_addr='' - 2)) = ''base_addr''"
  "trim (substr ''@base_addr=1F'' (length (substr ''@base_addr='' 1 (length ''@base_addr='' - 2)) + 2)
     (length ''@base_addr=1F'' - length (substr ''@base_addr='' 1 (length ''@base_addr='' - 2)))) = ''1F''"
  by code_simp+

text \<open>
  The directive line in pass 1, whatever \<^verbatim>\<open>mpc\<close> held before: two hexadecimal digits
  push the old value out of the byte.
\<close>

lemma base_directive_line:
  assumes "directives s ''base_addr'' \<noteq> None"
  shows "directive_line s ''@base_addr=1F'' =
           Inr (s\<lparr>directives := (directives s)(''base_addr'' \<mapsto> 0x1F), mpc := 0x1F,
                  caddr := caddr s + 0x1F, adjustBase := True\<rparr>)"
  using assms unfolding directive_line_def base_line option.case Let_def base_1F_value
  by simp

lemma base_directive_pass1:
  assumes "directives s ''base_addr'' \<noteq> None"
  shows "step imap False s ''@base_addr=1F'' =
           Inr (s\<lparr>directives := (directives s)(''base_addr'' \<mapsto> 0x1F), mpc := 0x1F,
                  caddr := caddr s + 0x1F, adjustBase := True\<rparr>)"
  using base_directive_line [OF assms] by (simp add: step_def base_line(1))

lemma base_directive_pass2: "step imap True s ''@base_addr=1F'' = Inr s"
  by (simp add: step_def base_line(1))

text \<open>Pass 1 only moves the address.\<close>

lemma emit_bytes_pass1: "emit_bytes False bs s = s\<lparr>caddr := caddr s + int (length bs)\<rparr>"
  by (induction bs arbitrary: s) auto

lemma instruction_line_shifted:
  assumes "shifted d s s'"
  shows "rel_sum (=) (shifted d) (instruction_line imap False s line) (instruction_line imap False s' line)"
  using assms
  by (auto simp: instruction_line_def Let_def emit_bytes_pass1 shifted_def
      split: prod.splits option.splits)

lemma step_shifted:
  assumes "\<not> is_directive raw" and "shifted d s s'"
  shows "rel_sum (=) (shifted d) (step imap False s raw) (step imap False s' raw)"
proof -
  consider "trim raw = []" | "trim raw \<noteq> []" "hd (trim raw) = CHR ''#''"
    | m where "trim raw \<noteq> []" "hd (trim raw) \<noteq> CHR ''#''" "regex_match CHR '':'' (trim raw) = Some m"
    | "trim raw \<noteq> []" "hd (trim raw) \<noteq> CHR ''#''" "regex_match CHR '':'' (trim raw) = None"
    by (cases "regex_match CHR '':'' (trim raw)") auto
  then show ?thesis
  proof cases
    case 1
    then show ?thesis using assms(2) by (simp add: step_def shifted_def)
  next
    case 2
    then show ?thesis using assms(2) by (simp add: step_def shifted_def)
  next
    case 3
    then show ?thesis
      using assms by (simp add: step_def shifted_def is_directive_def)
  next
    case 4
    then have "step imap False s raw = instruction_line imap False s (trim raw)"
      and "step imap False s' raw = instruction_line imap False s' (trim raw)"
      using assms(1) by (simp_all add: step_def is_directive_def)
    then show ?thesis using instruction_line_shifted [OF assms(2)] by simp
  qed
qed

lemma run_lines_shifted:
  assumes "\<forall>l \<in> set ls. \<not> is_directive l" and "shifted d s s'"
  shows "rel_sum (=) (shifted d) (run_lines imap False s ls) (run_lines imap False s' ls)"
  using assms
proof (induction ls arbitrary: s s')
  case Nil
  then show ?case by simp
next
  case (Cons l ls)
  have nd: "\<not> is_directive l" and rest: "\<forall>x \<in> set ls. \<not> is_directive x"
    using Cons.prems(1) by simp_all
  have st: "rel_sum (=) (shifted d) (step imap False s l) (step imap False s' l)"
    using nd Cons.prems(2) by (rule step_shifted)
  show ?case
  proof (cases "step imap False s l")
    case (Inl e)
    then have "step imap False s' l = Inl e" using st by (cases "step imap False s' l") auto
    then show ?thesis using Inl by simp
  next
    case (Inr t)
    then obtain t' where t': "step imap False s' l = Inr t'" and sh: "shifted d t t'"
      using st by (cases "step imap False s' l") auto
    show ?thesis using Inr t' Cons.IH [OF rest sh] by simp
  qed
qed

text \<open>Facts that hold along a run, one step at a time.\<close>

lemma run_lines_invariant:
  assumes "\<And>t l t'. l \<in> set ls \<Longrightarrow> P t \<Longrightarrow> step imap w t l = Inr t' \<Longrightarrow> P t'"
    and "P s" and "run_lines imap w s ls = Inr s'"
  shows "P s'"
  using assms
proof (induction ls arbitrary: s)
  case Nil
  then show ?case by simp
next
  case (Cons l ls)
  obtain t where t: "step imap w s l = Inr t" and r: "run_lines imap w t ls = Inr s'"
    using Cons.prems(3) by (auto split: sum.splits)
  have "P t" using Cons.prems(1) [of l s t] Cons.prems(2) t by simp
  moreover have "\<And>u x u'. x \<in> set ls \<Longrightarrow> P u \<Longrightarrow> step imap w u x = Inr u' \<Longrightarrow> P u'"
    using Cons.prems(1) by auto
  ultimately show ?case using r Cons.IH by blast
qed

lemma emit_bytes_fields [simp]:
  "directives (emit_bytes w bs s) = directives s"
  "adjustBase (emit_bytes w bs s) = adjustBase s"
  by (induction bs arbitrary: s) auto

lemma emit_bytes_pass1_emitted [simp]: "emitted (emit_bytes False bs s) = emitted s"
  by (simp add: emit_bytes_pass1)

lemma instruction_line_keeps:
  assumes "instruction_line imap w s line = Inr s'"
  shows "directives s' = directives s \<and> adjustBase s' = adjustBase s \<and>
         (\<not> w \<longrightarrow> emitted s' = emitted s)"
  using assms
  by (auto simp: instruction_line_def Let_def split: prod.splits if_splits option.splits sum.splits)

lemma step_keeps:
  assumes "\<not> is_directive raw \<or> w" and "step imap w s raw = Inr s'"
  shows "directives s' = directives s \<and> adjustBase s' = adjustBase s \<and>
         (\<not> w \<longrightarrow> emitted s' = emitted s)"
  using assms
  by (auto simp: step_def is_directive_def Let_def split: if_splits option.splits
      dest: instruction_line_keeps)

lemma emit_bytes_addressed:
  "addressed_from b s \<Longrightarrow> addressed_from b (emit_bytes True bs s)"
  by (induction bs arbitrary: s) (auto simp: addressed_from_def)

lemma instruction_line_result:
  assumes "instruction_line imap w s line = Inr s'"
  shows "\<exists>m bs. s' = (emit_bytes w (m # bs) (s\<lparr>mpc := m\<rparr>))\<lparr>linenum := linenum s + 1\<rparr>"
  using assms
  by (auto simp: instruction_line_def Let_def simp del: emit_bytes.simps
      split: prod.splits if_splits option.splits sum.splits)

lemma instruction_line_addressed:
  assumes "instruction_line imap True s line = Inr s'" and "addressed_from b s"
  shows "addressed_from b s'"
proof -
  obtain m bs where s': "s' = (emit_bytes True (m # bs) (s\<lparr>mpc := m\<rparr>))\<lparr>linenum := linenum s + 1\<rparr>"
    using instruction_line_result [OF assms(1)] by blast
  have "addressed_from b (s\<lparr>mpc := m\<rparr>)"
    using assms(2) by (simp add: addressed_from_def)
  then have "addressed_from b (emit_bytes True (m # bs) (s\<lparr>mpc := m\<rparr>))"
    by (rule emit_bytes_addressed)
  then show ?thesis
    unfolding s' by (simp add: addressed_from_def)
qed

lemma step_addressed:
  assumes "step imap True s raw = Inr s'" and "addressed_from b s"
  shows "addressed_from b s'"
proof -
  have l: "addressed_from b (s\<lparr>linenum := n\<rparr>)" for n
    using assms(2) by (simp add: addressed_from_def)
  show ?thesis
    using assms l
    by (auto simp: step_def Let_def split: if_splits option.splits dest: instruction_line_addressed)
qed

text \<open>
  C7. Let the program be the line \<^verbatim>\<open>@base_addr=1F\<close> followed by lines \<open>rest\<close> of which none
  is a directive, and let both passes succeed, pass 1 ending in \<open>s1\<close> and pass 2 in \<open>s2\<close>.
  Then pass 1 of \<open>rest\<close> alone succeeds too, and every label address recorded in \<open>s1\<close> is
  the one recorded there plus 0x1F (a byte, so modulo 256); the bytes pass 2 writes
  stand at the addresses 0x1F, 0x20, ... in order, the base value found in pass 1 being
  the start of pass 2; the run ends successfully, and the byte count it reports is the
  final program address minus 0x1F, which is the number of bytes written.
\<close>

theorem base_address_shifts_program:
  assumes "\<forall>l \<in> set rest. \<not> is_directive l"
    and "parse imap False g1 initial_state (''@base_addr=1F'' # rest) = Inr s1"
    and "parse imap True g2 s1 (''@base_addr=1F'' # rest) = Inr s2"
  shows "(\<exists>s0. parse imap False g0 initial_state rest = Inr s0 \<and>
               (\<forall>n. lblmap s1 n = map_option (\<lambda>a. a + 0x1F) (lblmap s0 n))) \<and>
         map fst (emitted s2) = map (\<lambda>i. 0x1F + int i) [0..<length (emitted s2)] \<and>
         assemble imap g1 g2 (''@base_addr=1F'' # rest) = finished s2 \<and>
         reported_bytes (finished s2) = Some (caddr s2 - 0x1F) \<and>
         caddr s2 - 0x1F = int (length (emitted s2))"
proof -
  let ?D = "''@base_addr=1F''"
  let ?i0 = "initial_state\<lparr>caddr := 0, linenum := 1, mpc := g0\<rparr>"
  let ?i1 = "initial_state\<lparr>caddr := 0, linenum := 1, mpc := g1\<rparr>"
  let ?d1 = "?i1\<lparr>directives := (directives ?i1)(''base_addr'' \<mapsto> 0x1F), mpc := 0x1F,
                 caddr := caddr ?i1 + 0x1F, adjustBase := True\<rparr>"
  have p0: "parse imap False g0 initial_state rest = run_lines imap False ?i0 rest"
    by (simp add: parse_def initial_state_def)
  have "step imap False ?i1 ?D = Inr ?d1"
    by (rule base_directive_pass1) (simp add: initial_state_def)
  then have p1: "parse imap False g1 initial_state (?D # rest) = run_lines imap False ?d1 rest"
    by (simp add: parse_def initial_state_def)
  have r1: "run_lines imap False ?d1 rest = Inr s1" using assms(2) p1 by simp
  have sh: "shifted 0x1F ?i0 ?d1"
    by (simp add: shifted_def initial_state_def)
  have rel: "rel_sum (=) (shifted 0x1F) (run_lines imap False ?i0 rest) (run_lines imap False ?d1 rest)"
    using assms(1) sh by (rule run_lines_shifted)
  then obtain s0 where s0: "run_lines imap False ?i0 rest = Inr s0" and sh0: "shifted 0x1F s0 s1"
    using r1 by (cases "run_lines imap False ?i0 rest") auto
  have labels: "\<exists>s0. parse imap False g0 initial_state rest = Inr s0 \<and>
               (\<forall>n. lblmap s1 n = map_option (\<lambda>a. a + 0x1F) (lblmap s0 n))"
    using s0 sh0 p0 by (auto simp: shifted_def)
  let ?P = "\<lambda>t. directives t ''base_addr'' = Some 0x1F \<and> adjustBase t \<and> emitted t = []"
  have "?P ?d1" by (simp add: initial_state_def)
  moreover have "\<And>t l t'. l \<in> set rest \<Longrightarrow> ?P t \<Longrightarrow> step imap False t l = Inr t' \<Longrightarrow> ?P t'"
    using assms(1) step_keeps [where w = False and imap = imap] by auto
  ultimately have k1: "?P s1"
    using r1 run_lines_invariant [where P = ?P and w = False and imap = imap and ls = rest and s = ?d1 and s' = s1]
    by blast
  let ?j = "s1\<lparr>caddr := 0, linenum := 1, mpc := g2, caddr := 0x1F, adjustBase := False\<rparr>"
  have p2: "parse imap True g2 s1 (?D # rest) = run_lines imap True ?j rest"
    using k1 by (simp add: parse_def dir_get_def base_directive_pass2)
  have r2: "run_lines imap True ?j rest = Inr s2" using assms(3) p2 by simp
  let ?Q = "\<lambda>t. addressed_from 0x1F t \<and> directives t ''base_addr'' = Some 0x1F"
  have "?Q ?j" using k1 by (simp add: addressed_from_def)
  moreover have "\<And>t l t'. l \<in> set rest \<Longrightarrow> ?Q t \<Longrightarrow> step imap True t l = Inr t' \<Longrightarrow> ?Q t'"
    using step_keeps [where w = True and imap = imap] step_addressed [where imap = imap and b = "0x1F"]
    by auto
  ultimately have k2: "?Q s2"
    using r2 run_lines_invariant [where P = ?Q and w = True and imap = imap and ls = rest and s = ?j and s' = s2]
    by blast
  have asm: "assemble imap g1 g2 (?D # rest) = finished s2"
    using assms(2,3) by (simp add: assemble_def)
  have rep: "reported_bytes (finished s2) = Some (caddr s2 - 0x1F)"
    using k2 by (simp add: finished_def dir_get_def)
  show ?thesis
    using labels k2 asm rep by (simp add: addressed_from_def)
qed

lemma base_program_lines:
  "\<forall>l \<in> set [''lab1:'', ''HLT'', ''JMP lab1'']. \<not> is_directive l"
  by code_simp

lemma base_program_pass1:
  "\<not> isl (parse imap_default False 0 initial_state [''@base_addr=1F'', ''lab1:'', ''HLT'', ''JMP lab1''])"
  by code_simp

lemma base_program_runs:
  "\<not> exit_failure (assemble imap_default 0 0 [''@base_addr=1F'', ''lab1:'', ''HLT'', ''JMP lab1'']) \<and>
   out_file (assemble imap_default 0 0 [''@base_addr=1F'', ''lab1:'', ''HLT'', ''JMP lab1''])
     = Some [0x03, 0x50, 0x1F]"
  by code_simp

lemma plain_program_label:
  "map_sum diagnostic (\<lambda>t. lblmap t ''lab1'')
     (parse imap_default False 0 initial_state [''lab1:'', ''HLT'', ''JMP lab1'']) = Inr (Some 0)"
  by code_simp

theorem base_address_shifts_program_witness:
  "list_all (\<lambda>l. \<not> is_directive l) [''lab1:'', ''HLT'', ''JMP lab1''] \<and>
   \<not> exit_failure (assemble imap_default 0 0 [''@base_addr=1F'', ''lab1:'', ''HLT'', ''JMP lab1'']) \<and>
   out_file (assemble imap_default 0 0 [''@base_addr=1F'', ''lab1:'', ''HLT'', ''JMP lab1''])
     = Some [0x03, 0x50, 0x1F] \<and>
   (case parse imap_default False 0 initial_state [''@base_addr=1F'', ''lab1:'', ''HLT'', ''JMP lab1''] of
      Inl e \<Rightarrow> []
    | Inr t1 \<Rightarrow>
        (case parse imap_default True 0 t1 [''@base_addr=1F'', ''lab1:'', ''HLT'', ''JMP lab1''] of
           Inl e \<Rightarrow> []
         | Inr t2 \<Rightarrow> map fst (emitted t2)))
     = [0x1F, 0x20, 0x21] \<and>
   reported_bytes (assemble imap_default 0 0 [''@base_addr=1F'', ''lab1:'', ''HLT'', ''JMP lab1''])
     = Some 3 \<and>
   map_sum diagnostic (\<lambda>t. lblmap t ''lab1'')
     (parse imap_default False 0 initial_state [''lab1:'', ''HLT'', ''JMP lab1'']) = Inr (Some 0) \<and>
   map_sum diagnostic (\<lambda>t. lblmap t ''lab1'')
     (parse imap_default False 0 initial_state [''@base_addr=1F'', ''lab1:'', ''HLT'', ''JMP lab1''])
     = Inr (Some 0x1F)"
proof -
  let ?rest = "[''lab1:'', ''HLT'', ''JMP lab1'']"
  let ?prog = "''@base_addr=1F'' # ?rest"
  obtain s1 where s1: "parse imap_default False 0 initial_state ?prog = Inr s1"
    using base_program_pass1 by (cases "parse imap_default False 0 initial_state ?prog") auto
  obtain s2 where s2: "parse imap_default True 0 s1 ?prog = Inr s2"
    using base_program_runs s1
    by (cases "parse imap_default True 0 s1 ?prog") (auto simp: assemble_def failed_def)
  note t = base_address_shifts_program [where ?g0.0 = 0, OF base_program_lines s1 s2]
  obtain s0 where s0: "parse imap_default False 0 initial_state ?rest = Inr s0"
    and lab: "\<forall>n. lblmap s1 n = map_option (\<lambda>a. a + 0x1F) (lblmap s0 n)"
    using t by blast
  have l0: "lblmap s0 ''lab1'' = Some 0" using plain_program_label s0 by simp
  have l1: "lblmap s1 ''lab1'' = Some 0x1F" using lab l0 by simp
  have a: "assemble imap_default 0 0 ?prog = finished s2" using t by blast
  have len: "length (emitted s2) = 3"
    using base_program_runs a by (auto simp: finished_def)
  have pos: "map fst (emitted s2) = [0x1F, 0x20, 0x21]"
    using t len by (simp add: upt_rec)
  have rep: "reported_bytes (finished s2) = Some 3"
    using t len by simp
  show ?thesis
    using base_program_lines base_program_runs plain_program_label s1 s2 l1 a pos rep
    by (simp add: list_all_iff finished_def)
qed

end
